theory Spec2Isabelle
  imports Main
begin

section \<open>Coordinate model (chess/types.ts)\<close>

text \<open>
  Colours are booleans (\<open>WHITE = true\<close>), piece types the integers 1 to 6 and squares
  the integers 0 to 63, as in the source. JavaScript numbers are modelled as
  \<^typ>\<open>int\<close>: the code only ever adds, subtracts, compares and masks small whole numbers.
  A JavaScript string is a \<^typ>\<open>string\<close>; the case conversions below act on the ASCII
  letters, which is all the code applies them to.
\<close>

type_synonym Color = bool
type_synonym PieceType = int
type_synonym Square = int

abbreviation (input) WHITE :: Color where "WHITE \<equiv> True"
abbreviation (input) BLACK :: Color where "BLACK \<equiv> False"

abbreviation (input) PAWN :: PieceType where "PAWN \<equiv> 1"
abbreviation (input) KNIGHT :: PieceType where "KNIGHT \<equiv> 2"
abbreviation (input) BISHOP :: PieceType where "BISHOP \<equiv> 3"
abbreviation (input) ROOK :: PieceType where "ROOK \<equiv> 4"
abbreviation (input) QUEEN :: PieceType where "QUEEN \<equiv> 5"
abbreviation (input) KING :: PieceType where "KING \<equiv> 6"

abbreviation (input) A1 :: Square where "A1 \<equiv> 0"
abbreviation (input) C1 :: Square where "C1 \<equiv> 2"
abbreviation (input) D1 :: Square where "D1 \<equiv> 3"
abbreviation (input) E1 :: Square where "E1 \<equiv> 4"
abbreviation (input) F1 :: Square where "F1 \<equiv> 5"
abbreviation (input) G1 :: Square where "G1 \<equiv> 6"
abbreviation (input) H1 :: Square where "H1 \<equiv> 7"
abbreviation (input) A8 :: Square where "A8 \<equiv> 56"
abbreviation (input) C8 :: Square where "C8 \<equiv> 58"
abbreviation (input) D8 :: Square where "D8 \<equiv> 59"
abbreviation (input) E8 :: Square where "E8 \<equiv> 60"
abbreviation (input) F8 :: Square where "F8 \<equiv> 61"
abbreviation (input) G8 :: Square where "G8 \<equiv> 62"
abbreviation (input) H8 :: Square where "H8 \<equiv> 63"

abbreviation (input) CASTLING_WHITE_KINGSIDE :: int where "CASTLING_WHITE_KINGSIDE \<equiv> 1"
abbreviation (input) CASTLING_WHITE_QUEENSIDE :: int where "CASTLING_WHITE_QUEENSIDE \<equiv> 2"
abbreviation (input) CASTLING_BLACK_KINGSIDE :: int where "CASTLING_BLACK_KINGSIDE \<equiv> 4"
abbreviation (input) CASTLING_BLACK_QUEENSIDE :: int where "CASTLING_BLACK_QUEENSIDE \<equiv> 8"

definition SQUARE_NAMES :: "string list" where
  "SQUARE_NAMES =
    [''a1'', ''b1'', ''c1'', ''d1'', ''e1'', ''f1'', ''g1'', ''h1'',
     ''a2'', ''b2'', ''c2'', ''d2'', ''e2'', ''f2'', ''g2'', ''h2'',
     ''a3'', ''b3'', ''c3'', ''d3'', ''e3'', ''f3'', ''g3'', ''h3'',
     ''a4'', ''b4'', ''c4'', ''d4'', ''e4'', ''f4'', ''g4'', ''h4'',
     ''a5'', ''b5'', ''c5'', ''d5'', ''e5'', ''f5'', ''g5'', ''h5'',
     ''a6'', ''b6'', ''c6'', ''d6'', ''e6'', ''f6'', ''g6'', ''h6'',
     ''a7'', ''b7'', ''c7'', ''d7'', ''e7'', ''f7'', ''g7'', ''h7'',
     ''a8'', ''b8'', ''c8'', ''d8'', ''e8'', ''f8'', ''g8'', ''h8'']"

definition FILE_NAMES :: "string list" where
  "FILE_NAMES = [''a'', ''b'', ''c'', ''d'', ''e'', ''f'', ''g'', ''h'']"

text \<open>
  Reading a JavaScript array: an index outside the array yields \<open>undefined\<close>, here
  \<^term>\<open>None\<close>. \<open>indexOf\<close> answers \<open>-1\<close> when the element is absent.
\<close>

definition js_nth :: "'a list \<Rightarrow> int \<Rightarrow> 'a option" where
  "js_nth xs i = (if 0 \<le> i \<and> i < int (length xs) then Some (xs ! nat i) else None)"

fun indexOf_from :: "'a list \<Rightarrow> 'a \<Rightarrow> int \<Rightarrow> int" where
  "indexOf_from [] x i = - 1"
| "indexOf_from (y # ys) x i = (if y = x then i else indexOf_from ys x (i + 1))"

definition indexOf :: "'a list \<Rightarrow> 'a \<Rightarrow> int" where
  "indexOf xs x = indexOf_from xs x 0"

text \<open>A value spliced into a template literal: \<open>undefined\<close> prints as that word.\<close>

definition tmpl :: "string option \<Rightarrow> string" where
  "tmpl v = (case v of None \<Rightarrow> ''undefined'' | Some s \<Rightarrow> s)"

definition charCode :: "char \<Rightarrow> int" where
  "charCode c = of_char c"

definition lowerChar :: "char \<Rightarrow> char" where
  "lowerChar c = (if charCode (CHR ''A'') \<le> charCode c \<and> charCode c \<le> charCode (CHR ''Z'') then char_of (charCode c + 32) else c)"

definition upperChar :: "char \<Rightarrow> char" where
  "upperChar c = (if charCode (CHR ''a'') \<le> charCode c \<and> charCode c \<le> charCode (CHR ''z'') then char_of (charCode c - 32) else c)"

definition toLowerCase :: "string \<Rightarrow> string" where
  "toLowerCase s = map lowerChar s"

definition toUpperCase :: "string \<Rightarrow> string" where
  "toUpperCase s = map upperChar s"

text \<open>\<open>s.slice(a, b)\<close> for \<open>0 \<le> a \<le> b\<close>, \<open>s.slice(-n)\<close> and \<open>s.slice(0, -n)\<close>.\<close>

definition slice :: "string \<Rightarrow> nat \<Rightarrow> nat \<Rightarrow> string" where
  "slice s a b = take (b - a) (drop a s)"

definition sliceLast :: "string \<Rightarrow> nat \<Rightarrow> string" where
  "sliceLast s n = drop (length s - n) s"

definition sliceButLast :: "string \<Rightarrow> nat \<Rightarrow> string" where
  "sliceButLast s n = take (length s - n) s"

definition squareFile :: "Square \<Rightarrow> int" where
  "squareFile square = square mod 8"

definition squareRank :: "Square \<Rightarrow> int" where
  "squareRank square = square div 8"

definition squareFromFileRank :: "int \<Rightarrow> int \<Rightarrow> Square" where
  "squareFromFileRank file rank = rank * 8 + file"

definition squareName :: "Square \<Rightarrow> string option" where
  "squareName square = js_nth SQUARE_NAMES square"

definition parseSquare :: "string \<Rightarrow> Square option" where
  "parseSquare name =
     (let idx = indexOf SQUARE_NAMES (toLowerCase name)
      in if idx \<ge> 0 then Some idx else None)"

section \<open>Errors\<close>

text \<open>Every failure of the code is \<open>throw new Error(message)\<close>; the message is kept.\<close>

datatype error = Error string

section \<open>Move value (chess/move.ts)\<close>

record Move =
  fromSquare :: Square
  toSquare :: Square
  promotion :: "PieceType option"
  dropPiece :: "PieceType option"

definition mkMove :: "Square \<Rightarrow> Square \<Rightarrow> PieceType option \<Rightarrow> PieceType option \<Rightarrow> Move" where
  "mkMove f t p d = \<lparr>fromSquare = f, toSquare = t, promotion = p, dropPiece = d\<rparr>"

definition Move_null :: Move where
  "Move_null = mkMove 0 0 None None"

text \<open>
  \<open>uci()\<close>. The two lookup tables are indexed by the piece type; outside the table the
  lookup is \<open>undefined\<close>, which the concatenation prints.
\<close>

definition uci :: "Move \<Rightarrow> string" where
  "uci m =
     (case dropPiece m of
        Some d \<Rightarrow>
          tmpl (js_nth ['''', ''P'', ''N'', ''B'', ''R'', ''Q'', ''K''] d) @ ''@'' @ tmpl (squareName (toSquare m))
      | None \<Rightarrow>
          (let result = tmpl (squareName (fromSquare m)) @ tmpl (squareName (toSquare m))
           in case promotion m of
                None \<Rightarrow> result
              | Some p \<Rightarrow> result @ tmpl (js_nth ['''', '''', ''n'', ''b'', ''r'', ''q''] p)))"

definition promotionMap :: "string \<Rightarrow> PieceType option" where
  "promotionMap c =
     (if c = ''n'' then Some KNIGHT
      else if c = ''b'' then Some BISHOP
      else if c = ''r'' then Some ROOK
      else if c = ''q'' then Some QUEEN
      else None)"

definition fromUci :: "string \<Rightarrow> error + Move" where
  "fromUci u =
     (if length u < 4 then Inl (Error (''Invalid UCI move: '' @ u))
      else if u = ''0000'' then Inr Move_null
      else if CHR ''@'' \<in> set u then
        (let pieceSymbol = toUpperCase [u ! 0];
             toName = slice u 2 4
         in case parseSquare toName of
              None \<Rightarrow> Inl (Error (''Invalid UCI move: '' @ u))
            | Some toSq \<Rightarrow>
                Inr (mkMove 0 toSq None
                       (Some (indexOf ['''', ''P'', ''N'', ''B'', ''R'', ''Q'', ''K''] pieceSymbol))))
      else
        (let fromName = slice u 0 2;
             toName = slice u 2 4;
             promotionChar = (if length u > 4 then Some (toLowerCase [u ! 4]) else None)
         in case (parseSquare fromName, parseSquare toName) of
              (Some fromSq, Some toSq) \<Rightarrow>
                (case promotionChar of
                   None \<Rightarrow> Inr (mkMove fromSq toSq None None)
                 | Some c \<Rightarrow>
                     (case promotionMap c of
                        None \<Rightarrow> Inl (Error (''Invalid promotion piece: '' @ c))
                      | Some p \<Rightarrow> Inr (mkMove fromSq toSq (Some p) None)))
            | _ \<Rightarrow> Inl (Error (''Invalid UCI move: '' @ u))))"


section \<open>Piece value (chess/piece.ts)\<close>

record Piece =
  pieceType :: PieceType
  color :: Color

definition mkPiece :: "PieceType \<Rightarrow> Color \<Rightarrow> Piece" where
  "mkPiece t c = \<lparr>pieceType = t, color = c\<rparr>"

section \<open>Board engine (chess/board.ts): state, push and pop\<close>

text \<open>
  What \<open>this.pieces[i]\<close> can evaluate to: \<open>undefined\<close> outside the array (or in a hole),
  \<open>null\<close> on an empty square, or a piece. A truthiness test accepts only the piece;
  \<open>=== null\<close> and \<open>!== null\<close> tell \<open>null\<close> from \<open>undefined\<close>.
\<close>

datatype cell = Undefined | Null | Occupied (thePiece: Piece)

definition aget :: "cell list \<Rightarrow> int \<Rightarrow> cell" where
  "aget ps i = (if 0 \<le> i \<and> i < int (length ps) then ps ! nat i else Undefined)"

text \<open>
  \<open>this.pieces[i] = v\<close>. Past the end JavaScript extends the array and leaves holes.
  A negative index would set a property that is not an array element; the list is then
  left as it is.
\<close>

definition aset :: "cell list \<Rightarrow> int \<Rightarrow> cell \<Rightarrow> cell list" where
  "aset ps i v =
     (if i < 0 then ps
      else if i < int (length ps) then ps[nat i := v]
      else ps @ replicate (nat i - length ps) Undefined @ [v])"

record BoardState =
  turn :: Color
  castlingRights :: int
  epSquare :: "Square option"
  halfmoveClock :: int
  fullmoveNumber :: int
  pieces :: "cell list"

record UndoEntry =
  move :: Move
  capturedPiece :: cell
  prevState :: BoardState

record Board = BoardState +
  moveStack :: "UndoEntry list"

definition saveState :: "Board \<Rightarrow> BoardState" where
  "saveState b =
     \<lparr>turn = turn b, castlingRights = castlingRights b, epSquare = epSquare b,
      halfmoveClock = halfmoveClock b, fullmoveNumber = fullmoveNumber b, pieces = pieces b\<rparr>"

definition restoreState :: "BoardState \<Rightarrow> Board \<Rightarrow> Board" where
  "restoreState st b =
     b\<lparr>turn := turn st, castlingRights := castlingRights st, epSquare := epSquare st,
       halfmoveClock := halfmoveClock st, fullmoveNumber := fullmoveNumber st, pieces := pieces st\<rparr>"

text \<open>
  \<open>copy()\<close> builds a fresh board and overwrites every field of it except the move stack,
  which stays empty.
\<close>

definition copy :: "Board \<Rightarrow> Board" where
  "copy b =
     \<lparr>turn = turn b, castlingRights = castlingRights b, epSquare = epSquare b,
      halfmoveClock = halfmoveClock b, fullmoveNumber = fullmoveNumber b, pieces = pieces b,
      moveStack = []\<rparr>"

definition handleCastling :: "Move \<Rightarrow> Color \<Rightarrow> Board \<Rightarrow> Board" where
  "handleCastling m c b =
     (let ps1 = aset (pieces b) (fromSquare m) Null;
          ps2 = aset ps1 (toSquare m) (Occupied (mkPiece KING c))
      in if squareFile (toSquare m) = 6 then
           (let rookFrom = (if c = WHITE then H1 else H8);
                rookTo = (if c = WHITE then F1 else F8)
            in b\<lparr>pieces := aset (aset ps2 rookFrom Null) rookTo (Occupied (mkPiece ROOK c))\<rparr>)
         else
           (let rookFrom = (if c = WHITE then A1 else A8);
                rookTo = (if c = WHITE then D1 else D8)
            in b\<lparr>pieces := aset (aset ps2 rookFrom Null) rookTo (Occupied (mkPiece ROOK c))\<rparr>))"

text \<open>
  \<open>x &= ~mask\<close> on the castling rights. The en-passant square of a double step is
  \<open>(from + to) / 2\<close>, a whole number whenever the two squares are on one file.
\<close>

definition clearBits :: "int \<Rightarrow> int \<Rightarrow> int" where
  "clearBits x bits = and x (not bits)"

definition capturedRook :: "cell \<Rightarrow> bool" where
  "capturedRook captured = (case captured of Occupied p \<Rightarrow> pieceType p = ROOK | _ \<Rightarrow> False)"

definition updateStateAfterMove :: "Piece \<Rightarrow> Move \<Rightarrow> cell \<Rightarrow> Board \<Rightarrow> Board" where
  "updateStateAfterMove piece m captured b =
     (let ep = (if pieceType piece = PAWN \<and> \<bar>squareRank (toSquare m) - squareRank (fromSquare m)\<bar> = 2
                then Some ((fromSquare m + toSquare m) div 2) else None);
          cr0 = castlingRights b;
          cr1 = (if pieceType piece = KING then
                   (if color piece = WHITE
                    then clearBits cr0 (or CASTLING_WHITE_KINGSIDE CASTLING_WHITE_QUEENSIDE)
                    else clearBits cr0 (or CASTLING_BLACK_KINGSIDE CASTLING_BLACK_QUEENSIDE))
                 else cr0);
          cr2 = (if pieceType piece = ROOK \<and> fromSquare m = A1 then clearBits cr1 CASTLING_WHITE_QUEENSIDE else cr1);
          cr3 = (if pieceType piece = ROOK \<and> fromSquare m = H1 then clearBits cr2 CASTLING_WHITE_KINGSIDE else cr2);
          cr4 = (if pieceType piece = ROOK \<and> fromSquare m = A8 then clearBits cr3 CASTLING_BLACK_QUEENSIDE else cr3);
          cr5 = (if pieceType piece = ROOK \<and> fromSquare m = H8 then clearBits cr4 CASTLING_BLACK_KINGSIDE else cr4);
          cr6 = (if capturedRook captured \<and> toSquare m = A1 then clearBits cr5 CASTLING_WHITE_QUEENSIDE else cr5);
          cr7 = (if capturedRook captured \<and> toSquare m = H1 then clearBits cr6 CASTLING_WHITE_KINGSIDE else cr6);
          cr8 = (if capturedRook captured \<and> toSquare m = A8 then clearBits cr7 CASTLING_BLACK_QUEENSIDE else cr7);
          cr9 = (if capturedRook captured \<and> toSquare m = H8 then clearBits cr8 CASTLING_BLACK_KINGSIDE else cr8);
          hm = (if pieceType piece = PAWN \<or> captured \<noteq> Null then 0 else halfmoveClock b + 1);
          fm = (if turn b = BLACK then fullmoveNumber b + 1 else fullmoveNumber b)
      in b\<lparr>epSquare := ep, castlingRights := cr9, halfmoveClock := hm, fullmoveNumber := fm,
           turn := \<not> turn b\<rparr>)"

text \<open>
  \<open>if (move.promotion)\<close>: \<open>null\<close> and \<open>0\<close> are falsy.
\<close>

definition truthyNum :: "int option \<Rightarrow> bool" where
  "truthyNum v = (case v of None \<Rightarrow> False | Some n \<Rightarrow> n \<noteq> 0)"

text \<open>
  \<open>push(move)\<close> mutates the board and may throw; the model returns the outcome together
  with the board as the call leaves it. The undo record is appended before the source
  square is looked at, so it is on the stack also when the call throws.
\<close>

definition push :: "Move \<Rightarrow> Board \<Rightarrow> (error + unit) \<times> Board" where
  "push m b =
     (let prev = saveState b;
          captured = aget (pieces b) (toSquare m);
          b1 = b\<lparr>moveStack := moveStack b @ [\<lparr>move = m, capturedPiece = captured, prevState = prev\<rparr>]\<rparr>
      in case aget (pieces b1) (fromSquare m) of
           Occupied piece \<Rightarrow>
             if pieceType piece = KING \<and> \<bar>squareFile (fromSquare m) - squareFile (toSquare m)\<bar> = 2 then
               (Inr (), updateStateAfterMove piece m Null (handleCastling m (color piece) b1))
             else
               (let enPassant = (pieceType piece = PAWN \<and> Some (toSquare m) = epSquare b1);
                    capturedPawnSquare = toSquare m + (if color piece = WHITE then - 8 else 8);
                    actualCapture = (if enPassant then aget (pieces b1) capturedPawnSquare else captured);
                    ps1 = (if enPassant then aset (pieces b1) capturedPawnSquare Null else pieces b1);
                    ps2 = aset ps1 (fromSquare m) Null;
                    ps3 = (if truthyNum (promotion m)
                           then aset ps2 (toSquare m) (Occupied (mkPiece (the (promotion m)) (color piece)))
                           else aset ps2 (toSquare m) (Occupied piece))
                in (Inr (), updateStateAfterMove piece m actualCapture (b1\<lparr>pieces := ps3\<rparr>)))
         | _ \<Rightarrow> (Inl (Error (''No piece at '' @ tmpl (squareName (fromSquare m)))), b1))"

definition pop :: "Board \<Rightarrow> Move option \<times> Board" where
  "pop b =
     (if moveStack b = [] then (None, b)
      else (let entry = last (moveStack b);
                b1 = b\<lparr>moveStack := butlast (moveStack b)\<rparr>
            in (Some (move entry), restoreState (prevState entry) b1)))"


section \<open>Board engine: attacks and move generation\<close>

text \<open>
  The generators of the source are read here as the lists of the moves they yield, in
  the order they yield them; no caller changes the board while it iterates.
\<close>

definition KNIGHT_MOVES :: "(int \<times> int) list" where
  "KNIGHT_MOVES = [(- 2, - 1), (- 2, 1), (- 1, - 2), (- 1, 2), (1, - 2), (1, 2), (2, - 1), (2, 1)]"

definition KING_MOVES :: "(int \<times> int) list" where
  "KING_MOVES = [(- 1, - 1), (- 1, 0), (- 1, 1), (0, - 1), (0, 1), (1, - 1), (1, 0), (1, 1)]"

definition BISHOP_DIRECTIONS :: "(int \<times> int) list" where
  "BISHOP_DIRECTIONS = [(- 1, - 1), (- 1, 1), (1, - 1), (1, 1)]"

definition ROOK_DIRECTIONS :: "(int \<times> int) list" where
  "ROOK_DIRECTIONS = [(- 1, 0), (1, 0), (0, - 1), (0, 1)]"

definition QUEEN_DIRECTIONS :: "(int \<times> int) list" where
  "QUEEN_DIRECTIONS = BISHOP_DIRECTIONS @ ROOK_DIRECTIONS"

definition truthy :: "cell \<Rightarrow> bool" where
  "truthy c = (case c of Occupied p \<Rightarrow> True | _ \<Rightarrow> False)"

text \<open>\<open>!target || target.color !== color\<close> and \<open>target && target.color !== color\<close>.\<close>

definition emptyOrEnemy :: "cell \<Rightarrow> Color \<Rightarrow> bool" where
  "emptyOrEnemy c col = (case c of Occupied p \<Rightarrow> color p \<noteq> col | _ \<Rightarrow> True)"

definition enemy :: "cell \<Rightarrow> Color \<Rightarrow> bool" where
  "enemy c col = (case c of Occupied p \<Rightarrow> color p \<noteq> col | _ \<Rightarrow> False)"

definition isPiece :: "cell \<Rightarrow> PieceType \<Rightarrow> Color \<Rightarrow> bool" where
  "isPiece c t col = (case c of Occupied p \<Rightarrow> pieceType p = t \<and> color p = col | _ \<Rightarrow> False)"

definition onBoard :: "int \<Rightarrow> int \<Rightarrow> bool" where
  "onBoard file rank = (\<not> (file < 0 \<or> file > 7 \<or> rank < 0 \<or> rank > 7))"

definition king :: "Color \<Rightarrow> Board \<Rightarrow> Square option" where
  "king col b = find (\<lambda>sq. isPiece (aget (pieces b) sq) KING col) [0..63]"

function attackRay :: "Board \<Rightarrow> int \<Rightarrow> int \<Rightarrow> Color \<Rightarrow> int \<Rightarrow> int \<Rightarrow> int \<Rightarrow> bool" where
  "attackRay b file rank byColor df dr dist =
     (if dist < 8 then
        (let fromFile = file + df * dist;
             fromRank = rank + dr * dist
         in if \<not> onBoard fromFile fromRank then False
            else (case aget (pieces b) (squareFromFileRank fromFile fromRank) of
                    Occupied piece \<Rightarrow>
                      color piece = byColor \<and>
                      (pieceType piece = QUEEN
                       \<or> (pieceType piece = BISHOP \<and> (df \<noteq> 0 \<and> dr \<noteq> 0))
                       \<or> (pieceType piece = ROOK \<and> (df = 0 \<or> dr = 0)))
                  | _ \<Rightarrow> attackRay b file rank byColor df dr (dist + 1)))
      else False)"
  by pat_completeness auto
termination
  by (relation "measure (\<lambda>(b, file, rank, byColor, df, dr, dist). nat (8 - dist))") auto

definition isAttacked :: "Square \<Rightarrow> Color \<Rightarrow> Board \<Rightarrow> bool" where
  "isAttacked square byColor b =
     (let file = squareFile square;
          rank = squareRank square;
          pawnRank = (if byColor = WHITE then rank - 1 else rank + 1)
      in list_ex (\<lambda>(df, dr). onBoard (file + df) (rank + dr) \<and>
                    isPiece (aget (pieces b) (squareFromFileRank (file + df) (rank + dr))) KNIGHT byColor)
           KNIGHT_MOVES
         \<or> list_ex (\<lambda>(df, dr). onBoard (file + df) (rank + dr) \<and>
                    isPiece (aget (pieces b) (squareFromFileRank (file + df) (rank + dr))) KING byColor)
           KING_MOVES
         \<or> (pawnRank \<ge> 0 \<and> pawnRank \<le> 7 \<and>
             list_ex (\<lambda>df. file + df \<ge> 0 \<and> file + df \<le> 7 \<and>
                       isPiece (aget (pieces b) (squareFromFileRank (file + df) pawnRank)) PAWN byColor)
               [- 1, 1])
         \<or> list_ex (\<lambda>(df, dr). attackRay b file rank byColor df dr 1) QUEEN_DIRECTIONS)"

definition generatePromotions :: "Square \<Rightarrow> Square \<Rightarrow> Move list" where
  "generatePromotions fromSq toSq =
     [mkMove fromSq toSq (Some QUEEN) None, mkMove fromSq toSq (Some ROOK) None,
      mkMove fromSq toSq (Some BISHOP) None, mkMove fromSq toSq (Some KNIGHT) None]"

definition generatePawnMoves :: "Square \<Rightarrow> Color \<Rightarrow> Board \<Rightarrow> Move list" where
  "generatePawnMoves fromSq col b =
     (let file = squareFile fromSq;
          rank = squareRank fromSq;
          direction = (if col = WHITE then 1 else - 1);
          startRank = (if col = WHITE then 1 else 6);
          promotionRank = (if col = WHITE then 7 else 0);
          toSq = squareFromFileRank file (rank + direction);
          toSq2 = squareFromFileRank file (rank + 2 * direction)
      in (if aget (pieces b) toSq = Null then
            (if rank + direction = promotionRank then generatePromotions fromSq toSq
             else mkMove fromSq toSq None None #
                  (if rank = startRank \<and> aget (pieces b) toSq2 = Null
                   then [mkMove fromSq toSq2 None None] else []))
          else [])
         @ concat (map (\<lambda>df.
             (let captureFile = file + df;
                  captureSq = squareFromFileRank captureFile (rank + direction)
              in if captureFile < 0 \<or> captureFile > 7 then []
                 else if enemy (aget (pieces b) captureSq) col \<or> Some captureSq = epSquare b then
                   (if rank + direction = promotionRank then generatePromotions fromSq captureSq
                    else [mkMove fromSq captureSq None None])
                 else [])) [- 1, 1]))"

definition generateKnightMoves :: "Square \<Rightarrow> Color \<Rightarrow> Board \<Rightarrow> Move list" where
  "generateKnightMoves fromSq col b =
     (let file = squareFile fromSq;
          rank = squareRank fromSq
      in concat (map (\<lambda>(df, dr).
           if \<not> onBoard (file + df) (rank + dr) then []
           else (let toSq = squareFromFileRank (file + df) (rank + dr)
                 in if emptyOrEnemy (aget (pieces b) toSq) col then [mkMove fromSq toSq None None] else []))
         KNIGHT_MOVES))"

function slideRay :: "Board \<Rightarrow> Square \<Rightarrow> Color \<Rightarrow> int \<Rightarrow> int \<Rightarrow> int \<Rightarrow> Move list" where
  "slideRay b fromSq col df dr dist =
     (if dist < 8 then
        (let toFile = squareFile fromSq + df * dist;
             toRank = squareRank fromSq + dr * dist;
             toSq = squareFromFileRank toFile toRank
         in if \<not> onBoard toFile toRank then []
            else (case aget (pieces b) toSq of
                    Occupied target \<Rightarrow> (if color target \<noteq> col then [mkMove fromSq toSq None None] else [])
                  | _ \<Rightarrow> mkMove fromSq toSq None None # slideRay b fromSq col df dr (dist + 1)))
      else [])"
  by pat_completeness auto
termination
  by (relation "measure (\<lambda>(b, fromSq, col, df, dr, dist). nat (8 - dist))") auto

definition generateSlidingMoves :: "Square \<Rightarrow> Color \<Rightarrow> (int \<times> int) list \<Rightarrow> Board \<Rightarrow> Move list" where
  "generateSlidingMoves fromSq col directions b =
     concat (map (\<lambda>(df, dr). slideRay b fromSq col df dr 1) directions)"

definition hasRight :: "Board \<Rightarrow> int \<Rightarrow> bool" where
  "hasRight b flag = (and (castlingRights b) flag \<noteq> 0)"

definition generateKingMoves :: "Square \<Rightarrow> Color \<Rightarrow> Board \<Rightarrow> Move list" where
  "generateKingMoves fromSq col b =
     (let file = squareFile fromSq;
          rank = squareRank fromSq;
          vacant = (\<lambda>sq. \<not> truthy (aget (pieces b) sq))
      in concat (map (\<lambda>(df, dr).
           if \<not> onBoard (file + df) (rank + dr) then []
           else (let toSq = squareFromFileRank (file + df) (rank + dr)
                 in if emptyOrEnemy (aget (pieces b) toSq) col then [mkMove fromSq toSq None None] else []))
         KING_MOVES)
         @ (if col = WHITE \<and> fromSq = E1 then
              (if hasRight b CASTLING_WHITE_KINGSIDE \<and> vacant F1 \<and> vacant G1
                  \<and> \<not> isAttacked E1 BLACK b \<and> \<not> isAttacked F1 BLACK b
               then [mkMove E1 G1 None None] else [])
              @ (if hasRight b CASTLING_WHITE_QUEENSIDE \<and> vacant D1 \<and> vacant C1
                    \<and> vacant (squareFromFileRank 1 0)
                    \<and> \<not> isAttacked E1 BLACK b \<and> \<not> isAttacked D1 BLACK b
                 then [mkMove E1 C1 None None] else [])
            else if col = BLACK \<and> fromSq = E8 then
              (if hasRight b CASTLING_BLACK_KINGSIDE \<and> vacant F8 \<and> vacant G8
                  \<and> \<not> isAttacked E8 WHITE b \<and> \<not> isAttacked F8 WHITE b
               then [mkMove E8 G8 None None] else [])
              @ (if hasRight b CASTLING_BLACK_QUEENSIDE \<and> vacant D8 \<and> vacant C8
                    \<and> vacant (squareFromFileRank 1 7)
                    \<and> \<not> isAttacked E8 WHITE b \<and> \<not> isAttacked D8 WHITE b
                 then [mkMove E8 C8 None None] else [])
            else []))"

definition pseudoLegalMoves :: "Board \<Rightarrow> Move list" where
  "pseudoLegalMoves b =
     concat (map (\<lambda>fromSq.
       (case aget (pieces b) fromSq of
          Occupied piece \<Rightarrow>
            if color piece \<noteq> turn b then []
            else if pieceType piece = PAWN then generatePawnMoves fromSq (turn b) b
            else if pieceType piece = KNIGHT then generateKnightMoves fromSq (turn b) b
            else if pieceType piece = BISHOP then generateSlidingMoves fromSq (turn b) BISHOP_DIRECTIONS b
            else if pieceType piece = ROOK then generateSlidingMoves fromSq (turn b) ROOK_DIRECTIONS b
            else if pieceType piece = QUEEN then generateSlidingMoves fromSq (turn b) QUEEN_DIRECTIONS b
            else if pieceType piece = KING then generateKingMoves fromSq (turn b) b
            else []
        | _ \<Rightarrow> [])) [0..63])"

text \<open>
  \<open>isLegalMove\<close>: play the move on a copy; a throwing \<open>push\<close> makes the move illegal;
  otherwise the king of the side that moved must not be attacked.
\<close>

definition isLegalMove :: "Move \<Rightarrow> Board \<Rightarrow> bool" where
  "isLegalMove m b =
     (case push m (copy b) of
        (Inl e, c) \<Rightarrow> False
      | (Inr u, c) \<Rightarrow>
          (case king (\<not> turn c) c of
             None \<Rightarrow> True
           | Some kingSq \<Rightarrow> \<not> isAttacked kingSq (turn c) c))"

definition legalMoves :: "Board \<Rightarrow> Move list" where
  "legalMoves b = filter (\<lambda>m. isLegalMove m b) (pseudoLegalMoves b)"

definition isCheck :: "Board \<Rightarrow> bool" where
  "isCheck b = (case king (turn b) b of None \<Rightarrow> False | Some kingSq \<Rightarrow> isAttacked kingSq (\<not> turn b) b)"

definition isCheckmate :: "Board \<Rightarrow> bool" where
  "isCheckmate b = (if \<not> isCheck b then False else legalMoves b = [])"

section \<open>Board engine: FEN\<close>

text \<open>
  Number formatting and parsing, for whole numbers. \<open>toString\<close> prints the decimal
  digits, with a minus sign in front of a negative number. \<open>parseInt\<close> skips leading
  white space, reads an optional sign, then the longest run of digits (hexadecimal ones
  after \<open>0x\<close>); without any digit the result is \<open>NaN\<close>, here \<^term>\<open>None\<close>.

  A JavaScript number is a double. The two definitions follow \<open>Number.prototype.toString\<close>
  and \<open>parseInt\<close> on the safe integers, the whole numbers of magnitude at most
  \<open>2^53 - 1\<close>, which a double holds exactly: there \<open>toString\<close> prints every digit and
  \<open>parseInt\<close> returns the exact value. They do not follow them beyond: from \<open>1e21\<close> on
  \<open>toString\<close> prints the exponent form (\<open>1e+21\<close>), and \<open>parseInt\<close> of a longer run of
  digits returns the nearest double. Every statement below that prints or reads a number
  is about numbers in the safe range.
\<close>

definition digitChar :: "nat \<Rightarrow> char" where
  "digitChar d = char_of (48 + d)"

function digitsOf :: "nat \<Rightarrow> string" where
  "digitsOf n = (if n < 10 then [digitChar n] else digitsOf (n div 10) @ [digitChar (n mod 10)])"
  by pat_completeness auto
termination
  by (relation "measure id") auto

definition toString :: "int \<Rightarrow> string" where
  "toString i = (if i < 0 then CHR ''-'' # digitsOf (nat (- i)) else digitsOf (nat i))"

definition isSpace :: "char \<Rightarrow> bool" where
  "isSpace c = (charCode c \<in> {9, 10, 11, 12, 13, 32, 160})"

definition isDigit :: "char \<Rightarrow> bool" where
  "isDigit c = (charCode (CHR ''0'') \<le> charCode c \<and> charCode c \<le> charCode (CHR ''9''))"

definition hexVal :: "char \<Rightarrow> nat option" where
  "hexVal c =
     (let k = charCode c
      in if 48 \<le> k \<and> k \<le> 57 then Some (nat (k - 48))
         else if 97 \<le> k \<and> k \<le> 102 then Some (nat (k - 87))
         else if 65 \<le> k \<and> k \<le> 70 then Some (nat (k - 55))
         else None)"

definition decimalValue :: "string \<Rightarrow> nat" where
  "decimalValue ds = foldl (\<lambda>acc c. acc * 10 + nat (charCode c - 48)) 0 ds"

definition hexValue :: "string \<Rightarrow> nat" where
  "hexValue ds = foldl (\<lambda>acc c. acc * 16 + the (hexVal c)) 0 ds"

definition parseInt :: "string \<Rightarrow> int option" where
  "parseInt s =
     (let s1 = dropWhile isSpace s;
          neg = (s1 \<noteq> [] \<and> hd s1 = CHR ''-'');
          s2 = (if s1 \<noteq> [] \<and> (hd s1 = CHR ''-'' \<or> hd s1 = CHR ''+'') then tl s1 else s1);
          sgn = (if neg then - 1 else 1)
      in if take 2 s2 = ''0x'' \<or> take 2 s2 = ''0X'' then
           (let ds = takeWhile (\<lambda>c. hexVal c \<noteq> None) (List.drop 2 s2)
            in if ds = [] then None else Some (sgn * int (hexValue ds)))
         else
           (let ds = takeWhile isDigit s2
            in if ds = [] then None else Some (sgn * int (decimalValue ds))))"

text \<open>\<open>parseInt(x) || d\<close>: \<open>NaN\<close> and \<open>0\<close> are falsy.\<close>

definition parseIntOr :: "string \<Rightarrow> int \<Rightarrow> int" where
  "parseIntOr s d = (case parseInt s of None \<Rightarrow> d | Some n \<Rightarrow> if n = 0 then d else n)"

text \<open>
  \<open>parts.join(sep)\<close>, \<open>s.split('/')\<close> and \<open>s.split(/\s+/)\<close>. Splitting at white space
  takes each maximal run of white space as one separator; a string that begins or ends
  with white space gets an empty first or last part.
\<close>

fun join :: "string \<Rightarrow> string list \<Rightarrow> string" where
  "join sep [] = []"
| "join sep [x] = x"
| "join sep (x # y # ys) = x @ sep @ join sep (y # ys)"

fun splitOn :: "char \<Rightarrow> string \<Rightarrow> string list" where
  "splitOn d [] = [[]]"
| "splitOn d (c # cs) =
     (if c = d then [] # splitOn d cs
      else (case splitOn d cs of w # ws \<Rightarrow> (c # w) # ws | [] \<Rightarrow> [[c]]))"

function splitSpaces :: "string \<Rightarrow> string list" where
  "splitSpaces [] = [[]]"
| "splitSpaces (c # cs) =
     (if isSpace c then [] # splitSpaces (dropWhile isSpace cs)
      else (case splitSpaces cs of w # ws \<Rightarrow> (c # w) # ws | [] \<Rightarrow> [[c]]))"
  by pat_completeness auto
termination
  by (relation "measure length") (auto simp: length_dropWhile_le less_Suc_eq_le)

definition PIECE_SYMBOLS :: "string option list" where
  "PIECE_SYMBOLS = [None, Some ''p'', Some ''n'', Some ''b'', Some ''r'', Some ''q'', Some ''k'']"

text \<open>
  \<open>piece.symbol()\<close>, as \<open>fen()\<close> appends it to a string. For a piece type outside the
  table the lookup is \<open>undefined\<close> (\<open>null\<close> at index 0): calling \<open>toUpperCase\<close> on
  it, as is done for a white piece, throws a \<open>TypeError\<close>; for a black piece the word
  itself is appended.
\<close>

definition symbol :: "Piece \<Rightarrow> error + string" where
  "symbol p =
     (case js_nth PIECE_SYMBOLS (pieceType p) of
        Some (Some s) \<Rightarrow> Inr (if color p = WHITE then toUpperCase s else s)
      | Some None \<Rightarrow>
          if color p = WHITE then Inl (Error ''TypeError: Cannot read properties of null'')
          else Inr ''null''
      | None \<Rightarrow>
          if color p = WHITE then Inl (Error ''TypeError: Cannot read properties of undefined'')
          else Inr ''undefined'')"

definition fromSymbol :: "string \<Rightarrow> error + Piece" where
  "fromSymbol sy =
     (let lower = toLowerCase sy;
          idx = indexOf PIECE_SYMBOLS (Some lower)
      in if idx \<le> 0 \<or> idx > 6 then Inl (Error (''Invalid piece symbol: '' @ sy))
         else Inr (mkPiece idx (sy = toUpperCase sy)))"

text \<open>
  One row of the piece placement: the loop over the files 0 to 7 with its two
  accumulators \<open>row\<close> and \<open>empty\<close>, then the trailing count.
\<close>

fun fenRowFrom :: "cell list \<Rightarrow> int \<Rightarrow> int list \<Rightarrow> string \<Rightarrow> int \<Rightarrow> error + string" where
  "fenRowFrom ps rank [] row nEmpty = Inr (if nEmpty > 0 then row @ toString nEmpty else row)"
| "fenRowFrom ps rank (file # files) row nEmpty =
     (case aget ps (squareFromFileRank file rank) of
        Occupied p \<Rightarrow>
          (case symbol p of
             Inl e \<Rightarrow> Inl e
           | Inr s \<Rightarrow> fenRowFrom ps rank files ((if nEmpty > 0 then row @ toString nEmpty else row) @ s) 0)
      | _ \<Rightarrow> fenRowFrom ps rank files row (nEmpty + 1))"

definition fenRow :: "cell list \<Rightarrow> int \<Rightarrow> error + string" where
  "fenRow ps rank = fenRowFrom ps rank [0, 1, 2, 3, 4, 5, 6, 7] [] 0"

fun fenRows :: "cell list \<Rightarrow> int list \<Rightarrow> error + string list" where
  "fenRows ps [] = Inr []"
| "fenRows ps (rank # ranks) =
     (case fenRow ps rank of
        Inl e \<Rightarrow> Inl e
      | Inr row \<Rightarrow> (case fenRows ps ranks of Inl e \<Rightarrow> Inl e | Inr rows \<Rightarrow> Inr (row # rows)))"

definition castlingString :: "Board \<Rightarrow> string" where
  "castlingString b =
     (let castling = (if hasRight b CASTLING_WHITE_KINGSIDE then ''K'' else [])
                   @ (if hasRight b CASTLING_WHITE_QUEENSIDE then ''Q'' else [])
                   @ (if hasRight b CASTLING_BLACK_KINGSIDE then ''k'' else [])
                   @ (if hasRight b CASTLING_BLACK_QUEENSIDE then ''q'' else [])
      in if castling = [] then ''-'' else castling)"

text \<open>
  \<open>fen()\<close>. In the join an \<open>undefined\<close> element (the name of an en-passant square
  outside 0..63) prints as the empty string.
\<close>

definition fen :: "Board \<Rightarrow> error + string" where
  "fen b =
     (case fenRows (pieces b) [7, 6, 5, 4, 3, 2, 1, 0] of
        Inl e \<Rightarrow> Inl e
      | Inr rows \<Rightarrow>
          Inr (join '' ''
                [join ''/'' rows,
                 (if turn b = WHITE then ''w'' else ''b''),
                 castlingString b,
                 (case epSquare b of
                    None \<Rightarrow> ''-''
                  | Some sq \<Rightarrow> (case squareName sq of None \<Rightarrow> [] | Some n \<Rightarrow> n)),
                 toString (halfmoveClock b),
                 toString (fullmoveNumber b)]))"

text \<open>
  \<open>setFen\<close> mutates as it goes, so a throw leaves the board partly updated: the squares
  are cleared and the move stack emptied before the rows are looked at. The functions
  return the outcome together with the state reached.
\<close>

fun setFenRow :: "string \<Rightarrow> int \<Rightarrow> int \<Rightarrow> cell list \<Rightarrow> (error + unit) \<times> cell list" where
  "setFenRow [] rank file ps = (Inr (), ps)"
| "setFenRow (c # cs) rank file ps =
     (if charCode (CHR ''1'') \<le> charCode c \<and> charCode c \<le> charCode (CHR ''8'')
      then setFenRow cs rank (file + (charCode c - 48)) ps
      else (case fromSymbol [c] of
              Inl e \<Rightarrow> (Inl e, ps)
            | Inr piece \<Rightarrow>
                setFenRow cs rank (file + 1) (aset ps (squareFromFileRank file rank) (Occupied piece))))"

fun setFenRows :: "string list \<Rightarrow> int list \<Rightarrow> cell list \<Rightarrow> (error + unit) \<times> cell list" where
  "setFenRows rows [] ps = (Inr (), ps)"
| "setFenRows rows (rank # ranks) ps =
     (case setFenRow (rows ! nat (7 - rank)) rank 0 ps of
        (Inl e, ps1) \<Rightarrow> (Inl e, ps1)
      | (Inr u, ps1) \<Rightarrow> setFenRows rows ranks ps1)"

definition castlingFromString :: "string \<Rightarrow> int" where
  "castlingFromString s =
     foldl (\<lambda>cr c.
        (let cr1 = (if c = CHR ''K'' then or cr CASTLING_WHITE_KINGSIDE else cr);
             cr2 = (if c = CHR ''Q'' then or cr1 CASTLING_WHITE_QUEENSIDE else cr1);
             cr3 = (if c = CHR ''k'' then or cr2 CASTLING_BLACK_KINGSIDE else cr2)
         in if c = CHR ''q'' then or cr3 CASTLING_BLACK_QUEENSIDE else cr3)) 0 s"

definition setFen :: "string \<Rightarrow> Board \<Rightarrow> (error + unit) \<times> Board" where
  "setFen f b =
     (let parts = splitSpaces f;
          b1 = b\<lparr>pieces := replicate (length (pieces b)) Null, moveStack := []\<rparr>;
          rows = splitOn (CHR ''/'') (parts ! 0)
      in if length rows \<noteq> 8 then (Inl (Error (''Invalid FEN: '' @ f)), b1)
         else (case setFenRows rows [7, 6, 5, 4, 3, 2, 1, 0] (pieces b1) of
                 (Inl e, ps) \<Rightarrow> (Inl e, b1\<lparr>pieces := ps\<rparr>)
               | (Inr u, ps) \<Rightarrow>
                   (Inr (),
                    b1\<lparr>pieces := ps,
                       turn := (if length parts > 1 \<and> parts ! 1 = ''b'' then BLACK else WHITE),
                       castlingRights :=
                         (if length parts > 2 \<and> parts ! 2 \<noteq> ''-'' then castlingFromString (parts ! 2) else 0),
                       epSquare :=
                         (if length parts > 3 \<and> parts ! 3 \<noteq> ''-'' then parseSquare (parts ! 3) else None),
                       halfmoveClock := (if length parts > 4 then parseIntOr (parts ! 4) 0 else 0),
                       fullmoveNumber := (if length parts > 5 then parseIntOr (parts ! 5) 1 else 1)\<rparr>)))"

definition STARTING_FEN :: string where
  "STARTING_FEN = ''rnbqkbnr/pppppppp/8/8/8/8/PPPPPPPP/RNBQKBNR w KQkq - 0 1''"

text \<open>
  \<open>new Board(fen)\<close>: the fields get their initial values, then \<open>setFen\<close> runs; when it
  throws, no board comes into being.
\<close>

definition emptyBoard :: Board where
  "emptyBoard =
     \<lparr>turn = WHITE, castlingRights = 0, epSquare = None, halfmoveClock = 0, fullmoveNumber = 1,
      pieces = replicate 64 Null, moveStack = []\<rparr>"

definition newBoard :: "string \<Rightarrow> error + Board" where
  "newBoard f = (case setFen f emptyBoard of (Inl e, b) \<Rightarrow> Inl e | (Inr u, b) \<Rightarrow> Inr b)"

section \<open>Board engine: SAN parsing and rendering\<close>

text \<open>
  String helpers of \<open>parseSan\<close>: \<open>s.replace(/[+#!?]+$/, '')\<close> removes the run of these
  four characters that ends the string, \<open>trim()\<close> removes white space at both ends,
  \<open>s.replace(/x/i, '')\<close> removes the first \<open>x\<close> or \<open>X\<close>.
\<close>

definition stripSuffixMarks :: "string \<Rightarrow> string" where
  "stripSuffixMarks s = rev (dropWhile (\<lambda>c. c \<in> set ''+#!?'') (rev s))"

definition trim :: "string \<Rightarrow> string" where
  "trim s = rev (dropWhile isSpace (rev (dropWhile isSpace s)))"

fun removeFirstX :: "string \<Rightarrow> string" where
  "removeFirstX [] = []"
| "removeFirstX (c # cs) = (if c = CHR ''x'' \<or> c = CHR ''X'' then cs else c # removeFirstX cs)"

text \<open>
  \<open>s.match(/=?([QRBN])$/i)\<close>: the string ends in one of the four letters, in either
  case; the match includes an equals sign right before the letter when there is one.
  The result is the letter in lower case and the length of the match.
\<close>

definition promotionMatch :: "string \<Rightarrow> (char \<times> nat) option" where
  "promotionMatch s =
     (if s \<noteq> [] \<and> lowerChar (last s) \<in> set ''qrbn''
      then Some (lowerChar (last s),
                 (if length s \<ge> 2 \<and> s ! (length s - 2) = CHR ''='' then 2 else 1))
      else None)"

definition promotionOfChar :: "char \<Rightarrow> PieceType" where
  "promotionOfChar c =
     (if c = CHR ''q'' then QUEEN else if c = CHR ''r'' then ROOK
      else if c = CHR ''b'' then BISHOP else KNIGHT)"

definition pieceOfLetter :: "char \<Rightarrow> PieceType" where
  "pieceOfLetter c =
     (if c = CHR ''K'' then KING else if c = CHR ''Q'' then QUEEN else if c = CHR ''R'' then ROOK
      else if c = CHR ''B'' then BISHOP else KNIGHT)"

text \<open>The loop over the characters left for disambiguation: a later character wins.\<close>

definition disambigStep :: "int option \<times> int option \<Rightarrow> char \<Rightarrow> int option \<times> int option" where
  "disambigStep acc c =
     (if charCode (CHR ''a'') \<le> charCode c \<and> charCode c \<le> charCode (CHR ''h'')
      then (Some (charCode c - charCode (CHR ''a'')), snd acc)
      else if charCode (CHR ''1'') \<le> charCode c \<and> charCode c \<le> charCode (CHR ''8'')
      then (fst acc, Some (charCode c - 48 - 1))
      else acc)"

definition parseDisambiguation :: "string \<Rightarrow> int option \<times> int option" where
  "parseDisambiguation s = foldl disambigStep (None, None) s"

text \<open>The test that the loop over the legal moves applies to each of them.\<close>

definition sanMatches ::
  "Board \<Rightarrow> PieceType \<Rightarrow> Square \<Rightarrow> PieceType option \<Rightarrow> int option \<Rightarrow> int option \<Rightarrow> Move \<Rightarrow> bool" where
  "sanMatches b pt toSq prom disambigFile disambigRank m =
     (case aget (pieces b) (fromSquare m) of
        Occupied fromPiece \<Rightarrow>
          pieceType fromPiece = pt \<and> toSquare m = toSq \<and> promotion m = prom
          \<and> (disambigFile = None \<or> Some (squareFile (fromSquare m)) = disambigFile)
          \<and> (disambigRank = None \<or> Some (squareRank (fromSquare m)) = disambigRank)
      | _ \<Rightarrow> False)"

text \<open>
  What \<open>parseSan\<close> reads from the cleaned string once castling and the null move are
  ruled out: the promotion, the destination (its last two characters; without a square
  name there the call throws), the piece letter and the disambiguation. The result is
  the tuple of piece type, destination, promotion, file and rank.
\<close>

definition sanConstraints ::
  "string \<Rightarrow> (PieceType \<times> Square \<times> PieceType option \<times> int option \<times> int option) option" where
  "sanConstraints s =
     (let prom = (case promotionMatch s of None \<Rightarrow> None | Some (c, n) \<Rightarrow> Some (promotionOfChar c));
          s1 = (case promotionMatch s of None \<Rightarrow> s | Some (c, n) \<Rightarrow> sliceButLast s n)
      in case parseSquare (sliceLast s1 2) of
           None \<Rightarrow> None
         | Some toSq \<Rightarrow>
             (let s2 = removeFirstX (sliceButLast s1 2);
                  hasLetter = (s2 \<noteq> [] \<and> hd s2 \<in> set ''KQRBN'');
                  pt = (if hasLetter then pieceOfLetter (hd s2) else PAWN);
                  s3 = (if hasLetter then tl s2 else s2);
                  dis = parseDisambiguation s3
              in Some (pt, toSq, prom, fst dis, snd dis)))"

definition parseSan :: "string \<Rightarrow> Board \<Rightarrow> error + Move" where
  "parseSan san b =
     (let s = trim (stripSuffixMarks san)
      in if s = ''O-O'' \<or> s = ''0-0'' then
           Inr (mkMove (if turn b = WHITE then E1 else E8) (if turn b = WHITE then G1 else G8) None None)
         else if s = ''O-O-O'' \<or> s = ''0-0-0'' then
           Inr (mkMove (if turn b = WHITE then E1 else E8) (if turn b = WHITE then C1 else C8) None None)
         else if s = ''--'' \<or> s = ''Z0'' then Inr Move_null
         else
           (case sanConstraints s of
              None \<Rightarrow> Inl (Error (''Invalid SAN: '' @ san))
            | Some (pt, toSq, prom, disambigFile, disambigRank) \<Rightarrow>
                (case find (sanMatches b pt toSq prom disambigFile disambigRank) (legalMoves b) of
                   Some m \<Rightarrow> Inr m
                 | None \<Rightarrow> Inl (Error (''Illegal move: '' @ san)))))"

text \<open>
  \<open>san(move)\<close>. The disambiguation part is a function of its own: the loop over the
  other legal moves sets the two flags, and the file letter and the rank digit are
  appended according to them.
\<close>

definition hasType :: "cell \<Rightarrow> PieceType \<Rightarrow> bool" where
  "hasType c t = (case c of Occupied q \<Rightarrow> pieceType q = t | _ \<Rightarrow> False)"

definition sanConflicts :: "Board \<Rightarrow> Move \<Rightarrow> Piece \<Rightarrow> Move list" where
  "sanConflicts b m piece =
     filter (\<lambda>other.
        toSquare other = toSquare m \<and> fromSquare other \<noteq> fromSquare m
        \<and> hasType (aget (pieces b) (fromSquare other)) (pieceType piece))
       (legalMoves b)"

definition sanNeedRank :: "Board \<Rightarrow> Move \<Rightarrow> Piece \<Rightarrow> bool" where
  "sanNeedRank b m piece =
     list_ex (\<lambda>other. squareFile (fromSquare other) = squareFile (fromSquare m)) (sanConflicts b m piece)"

definition sanNeedFile :: "Board \<Rightarrow> Move \<Rightarrow> Piece \<Rightarrow> bool" where
  "sanNeedFile b m piece =
     list_ex (\<lambda>other. squareFile (fromSquare other) \<noteq> squareFile (fromSquare m)) (sanConflicts b m piece)"

definition sanDisambiguation :: "Board \<Rightarrow> Move \<Rightarrow> Piece \<Rightarrow> string" where
  "sanDisambiguation b m piece =
     (if pieceType piece \<noteq> PAWN then
        (if sanNeedFile b m piece then tmpl (js_nth FILE_NAMES (squareFile (fromSquare m))) else [])
        @ (if sanNeedRank b m piece then toString (squareRank (fromSquare m) + 1) else [])
      else [])"

definition sanPieceLetter :: "Piece \<Rightarrow> string" where
  "sanPieceLetter piece =
     (if pieceType piece \<noteq> PAWN
      then tmpl (js_nth ['''', '''', ''N'', ''B'', ''R'', ''Q'', ''K''] (pieceType piece)) else [])"

definition sanRest :: "Board \<Rightarrow> Move \<Rightarrow> Piece \<Rightarrow> string" where
  "sanRest b m piece =
     (let isCapture = (aget (pieces b) (toSquare m) \<noteq> Null
                       \<or> (pieceType piece = PAWN \<and> Some (toSquare m) = epSquare b));
          boardCopy = snd (push m (copy b))
      in (if isCapture
          then (if pieceType piece = PAWN then tmpl (js_nth FILE_NAMES (squareFile (fromSquare m))) else [])
               @ ''x''
          else [])
         @ tmpl (squareName (toSquare m))
         @ (if truthyNum (promotion m)
            then ''='' @ tmpl (js_nth ['''', '''', ''N'', ''B'', ''R'', ''Q''] (the (promotion m)))
            else [])
         @ (if isCheck boardCopy then (if isCheckmate boardCopy then ''#'' else ''+'') else []))"

definition san :: "Move \<Rightarrow> Board \<Rightarrow> error + string" where
  "san m b =
     (case aget (pieces b) (fromSquare m) of
        Occupied piece \<Rightarrow>
          if pieceType piece = KING \<and> squareFile (toSquare m) - squareFile (fromSquare m) = 2
          then Inr ''O-O''
          else if pieceType piece = KING \<and> squareFile (toSquare m) - squareFile (fromSquare m) = - 2
          then Inr ''O-O-O''
          else Inr (sanPieceLetter piece @ sanDisambiguation b m piece @ sanRest b m piece)
      | _ \<Rightarrow> Inl (Error (''No piece at '' @ tmpl (squareName (fromSquare m)))))"

section \<open>Tree builder (pgn/tree-builder.ts)\<close>

text \<open>
  The upstream parse tree. An element of \<open>moves\<close> is a result string or a move record;
  a record carries its notation, two comments, its NAG strings and its variations, each a
  list of moves again. The annotations under \<open>commentDiag\<close> (clock and evaluation are
  floating-point numbers, arrows and shapes plain lists) play no part in the shape of the
  tree or in its errors and are left out.
\<close>

record Notation =
  n_notation :: string
  n_fig :: "string option"
  n_col :: string
  n_row :: string
  n_disc :: "string option"
  n_promotion :: "string option"
  n_drop :: bool

datatype PgnMove =
    ResultString string
  | MoveRecord (pm_notation: "Notation option") (commentMove: "string option")
      (commentAfter: "string option") (nag: "string list") (pm_variations: "PgnMove list list")

text \<open>
  The game tree is a graph of mutable objects: every node holds a reference to its parent
  and the array of its children. It is modelled as a store, the list of all nodes made so
  far; a node is referred to by its position in that list, and \<open>new GameNode()\<close> takes
  the next position. Node 0 is the \<open>Game\<close>, whose own fields are the headers and the
  error list.
\<close>

record GameNode =
  parent :: "nat option"
  nodeMove :: "Move option"
  variations :: "nat list"
  comment :: string
  startingComment :: string
  nags :: "int list"

record GameError =
  message :: string
  errSan :: "string option"
  errFen :: string

record Game =
  nodes :: "GameNode list"
  errors :: "GameError list"
  headers :: "(string \<times> string) list"

definition truthyStr :: "string option \<Rightarrow> bool" where
  "truthyStr v = (case v of None \<Rightarrow> False | Some s \<Rightarrow> s \<noteq> [])"

definition figMap :: "string \<Rightarrow> PieceType option" where
  "figMap f =
     (if f = ''P'' then Some 1 else if f = ''N'' then Some 2 else if f = ''B'' then Some 3
      else if f = ''R'' then Some 4 else if f = ''Q'' then Some 5 else if f = ''K'' then Some 6
      else None)"

definition promMap :: "string \<Rightarrow> PieceType option" where
  "promMap f =
     (if f = ''N'' then Some KNIGHT else if f = ''B'' then Some BISHOP
      else if f = ''R'' then Some ROOK else if f = ''Q'' then Some QUEEN else None)"

fun removeFirstChar :: "char \<Rightarrow> string \<Rightarrow> string" where
  "removeFirstChar d [] = []"
| "removeFirstChar d (c # cs) = (if c = d then cs else c # removeFirstChar d cs)"

text \<open>The test of the fallback loop of \<open>parseMove\<close> on one legal move.\<close>

definition fallbackMatches :: "Notation \<Rightarrow> Square \<Rightarrow> Board \<Rightarrow> Move \<Rightarrow> bool" where
  "fallbackMatches n toSq b m =
     (toSquare m = toSq \<and>
      (case aget (pieces b) (fromSquare m) of
         Occupied piece \<Rightarrow>
           Some (pieceType piece) = (if truthyStr (n_fig n) then figMap (the (n_fig n)) else Some 1)
           \<and> (if truthyStr (n_disc n) then
                (let file = charCode (hd (the (n_disc n)));
                     rank = parseInt (the (n_disc n))
                 in (\<not> (file \<ge> 97 \<and> file \<le> 104) \<or> squareFile (fromSquare m) = file - 97)
                    \<and> (case rank of
                          None \<Rightarrow> True
                        | Some r \<Rightarrow> \<not> (r \<ge> 1 \<and> r \<le> 8) \<or> squareRank (fromSquare m) = r - 1))
              else True)
           \<and> (if truthyStr (n_promotion n)
               then (case promMap (toUpperCase (removeFirstChar (CHR ''='') (the (n_promotion n)))) of
                       None \<Rightarrow> False
                     | Some promType \<Rightarrow> promotion m = Some promType)
               else \<not> truthyNum (promotion m))
       | _ \<Rightarrow> False))"

definition parseMove :: "Notation option \<Rightarrow> Board \<Rightarrow> error + Move" where
  "parseMove nt b =
     (case nt of
        None \<Rightarrow> Inl (Error ''Move has no notation'')
      | Some n \<Rightarrow>
          if n_notation n = ''Z0'' \<or> n_notation n = ''--'' then Inr Move_null
          else if n_notation n = ''O-O'' \<or> n_notation n = ''0-0'' then parseSan ''O-O'' b
          else if n_notation n = ''O-O-O'' \<or> n_notation n = ''0-0-0'' then parseSan ''O-O-O'' b
          else if n_drop n then
            (case parseSquare (n_col n @ n_row n) of
               None \<Rightarrow> Inl (Error (''Invalid drop square: '' @ n_col n @ n_row n))
             | Some toSq \<Rightarrow>
                 Inr (mkMove 0 toSq None (figMap (case n_fig n of None \<Rightarrow> ''P'' | Some f \<Rightarrow> f))))
          else
            (case parseSan (n_notation n) b of
               Inr m \<Rightarrow> Inr m
             | Inl e \<Rightarrow>
                 (case parseSquare (n_col n @ n_row n) of
                    None \<Rightarrow> Inl (Error (''Invalid target square: '' @ n_col n @ n_row n))
                  | Some toSq \<Rightarrow>
                      (case find (fallbackMatches n toSq b) (legalMoves b) of
                         Some m \<Rightarrow> Inr m
                       | None \<Rightarrow> Inl (Error (''Could not find legal move for: '' @ n_notation n))))))"

text \<open>The NAG loop: \<open>parseInt(nag.replace('$', ''))\<close>, added to the set unless \<open>NaN\<close>.\<close>

definition addNag :: "int list \<Rightarrow> string \<Rightarrow> int list" where
  "addNag ns s =
     (case parseInt (removeFirstChar (CHR ''$'') s) of
        None \<Rightarrow> ns
      | Some k \<Rightarrow> if k \<in> set ns then ns else ns @ [k])"

definition newNode :: "nat \<Rightarrow> Move \<Rightarrow> string option \<Rightarrow> string option \<Rightarrow> string list \<Rightarrow> GameNode" where
  "newNode cur mv cm ca ng =
     \<lparr>parent = Some cur, nodeMove = Some mv, variations = [],
      comment = (if truthyStr ca then the ca else []),
      startingComment = (if truthyStr cm then the cm else []),
      nags = foldl addNag [] ng\<rparr>"

text \<open>\<open>currentNode.variations.push(newNode)\<close>, with the new node put into the store.\<close>

definition appendChild :: "nat \<Rightarrow> GameNode \<Rightarrow> Game \<Rightarrow> Game" where
  "appendChild cur nd g =
     g\<lparr>nodes := (nodes g @ [nd])
                   [cur := (nodes g ! cur)\<lparr>variations := variations (nodes g ! cur) @ [length (nodes g)]\<rparr>]\<rparr>"

definition parseError :: "Notation option \<Rightarrow> string \<Rightarrow> GameError" where
  "parseError nt f =
     \<lparr>message = ''Failed to parse move: '' @ (case nt of None \<Rightarrow> ''unknown'' | Some n \<Rightarrow> n_notation n),
      errSan = map_option n_notation nt,
      errFen = f\<rparr>"

text \<open>
  \<open>buildMoveTree\<close>. \<open>buildLoop\<close> is its \<open>for\<close> loop, with the two cursors \<open>currentNode\<close>
  and \<open>currentBoard\<close> as arguments; \<open>buildVariations\<close> is the inner loop over the
  variation groups of one move record, which calls \<open>buildMoveTree\<close> again with the
  unchanged \<open>currentNode\<close> and a fresh board made from the FEN taken before the move
  (the recursive call starts its loop on a copy of that board). Only the parsing of the
  move is inside \<open>try\<close>: a throw of \<open>fen\<close>, \<open>push\<close> or the board constructor ends the
  whole build, with the store as it is then.
\<close>

fun buildLoop :: "nat \<Rightarrow> Board \<Rightarrow> PgnMove list \<Rightarrow> Game \<Rightarrow> (error + unit) \<times> Game"
  and buildVariations :: "nat \<Rightarrow> string \<Rightarrow> PgnMove list list \<Rightarrow> Game \<Rightarrow> (error + unit) \<times> Game"
where
  "buildLoop cur board [] g = (Inr (), g)"
| "buildLoop cur board (ResultString s # ms) g = buildLoop cur board ms g"
| "buildLoop cur board (MoveRecord nt cm ca ng vs # ms) g =
     (case parseMove nt board of
        Inl e \<Rightarrow>
          (case fen board of
             Inl e' \<Rightarrow> (Inl e', g)
           | Inr f \<Rightarrow> buildLoop cur board ms (g\<lparr>errors := errors g @ [parseError nt f]\<rparr>))
      | Inr mv \<Rightarrow>
          (let g1 = appendChild cur (newNode cur mv cm ca ng) g
           in case fen board of
                Inl e \<Rightarrow> (Inl e, g1)
              | Inr fenBeforeThisMove \<Rightarrow>
                  (case push mv board of
                     (Inl e, board') \<Rightarrow> (Inl e, g1)
                   | (Inr u, board') \<Rightarrow>
                       (case buildVariations cur fenBeforeThisMove vs g1 of
                          (Inl e, g2) \<Rightarrow> (Inl e, g2)
                        | (Inr u', g2) \<Rightarrow> buildLoop (length (nodes g)) board' ms g2))))"
| "buildVariations cur f [] g = (Inr (), g)"
| "buildVariations cur f (variationMoves # vs) g =
     (if variationMoves \<noteq> [] then
        (case newBoard f of
           Inl e \<Rightarrow> (Inl e, g)
         | Inr varBoard \<Rightarrow>
             (case buildLoop cur (copy varBoard) variationMoves g of
                (Inl e, g1) \<Rightarrow> (Inl e, g1)
              | (Inr u, g1) \<Rightarrow> buildVariations cur f vs g1))
      else buildVariations cur f vs g)"

text \<open>
  The entry of \<open>buildMoveTree\<close>: without a \<open>parentBoardFen\<close> it evaluates \<open>board.fen()\<close>
  once, then runs the loop on a copy of the board.
\<close>

definition buildMoveTree :: "nat \<Rightarrow> PgnMove list \<Rightarrow> Board \<Rightarrow> string option \<Rightarrow> Game \<Rightarrow> (error + unit) \<times> Game" where
  "buildMoveTree parentNode moves board parentBoardFen g =
     (case (parentBoardFen, fen board) of
        (None, Inl e) \<Rightarrow> (Inl e, g)
      | _ \<Rightarrow> buildLoop parentNode (copy board) moves g)"

record ParseTree =
  tags :: "(string \<times> string) list"
  gameComment :: "string option"
  moves :: "PgnMove list"

definition setHeader :: "string \<Rightarrow> string \<Rightarrow> (string \<times> string) list \<Rightarrow> (string \<times> string) list" where
  "setHeader k v hs = (if k \<in> set (map fst hs) then map (\<lambda>(k', v'). if k' = k then (k', v) else (k', v')) hs
                       else hs @ [(k, v)])"

definition newGame :: Game where
  "newGame =
     \<lparr>nodes = [\<lparr>parent = None, nodeMove = None, variations = [], comment = [], startingComment = [],
                nags = []\<rparr>],
      errors = [], headers = []\<rparr>"

text \<open>
  \<open>buildGameTree\<close>: headers (all but \<open>messages\<close>), the game comment, the starting board
  from the \<open>FEN\<close> header or the standard position, then the moves under the root.
\<close>

definition buildGameTree :: "ParseTree \<Rightarrow> error + Game" where
  "buildGameTree pt =
     (let g0 = newGame\<lparr>headers := foldl (\<lambda>hs (k, v). if k \<noteq> ''messages'' then setHeader k v hs else hs) [] (tags pt)\<rparr>;
          g1 = (case gameComment pt of
                  None \<Rightarrow> g0
                | Some c \<Rightarrow> g0\<lparr>nodes := [(nodes g0 ! 0)\<lparr>comment := c\<rparr>]\<rparr>);
          startingFen = (case map_of (headers g1) ''FEN'' of None \<Rightarrow> STARTING_FEN | Some f \<Rightarrow> f)
      in case newBoard startingFen of
           Inl e \<Rightarrow> Inl e
         | Inr board \<Rightarrow>
             if moves pt \<noteq> [] then
               (case buildMoveTree 0 (moves pt) board None g1 of
                  (Inl e, g2) \<Rightarrow> Inl e
                | (Inr u, g2) \<Rightarrow> Inr g2)
             else Inr g1)"

section \<open>What a run of the tree builder may change\<close>

text \<open>
  \<open>extendsAt cur g g' ks\<close>: from the store \<open>g\<close> to the store \<open>g'\<close> no node was removed,
  every old node other than \<open>cur\<close> is unchanged, and \<open>cur\<close> itself only had the nodes \<open>ks\<close>
  appended to its \<open>variations\<close> array, each of them a new node whose parent is \<open>cur\<close>.
\<close>

definition extendsAt :: "nat \<Rightarrow> Game \<Rightarrow> Game \<Rightarrow> nat list \<Rightarrow> bool" where
  "extendsAt cur g g' ks \<longleftrightarrow>
     length (nodes g) \<le> length (nodes g')
     \<and> (\<forall>i < length (nodes g). i \<noteq> cur \<longrightarrow> nodes g' ! i = nodes g ! i)
     \<and> nodes g' ! cur = (nodes g ! cur)\<lparr>variations := variations (nodes g ! cur) @ ks\<rparr>
     \<and> (\<forall>k \<in> set ks. length (nodes g) \<le> k \<and> k < length (nodes g') \<and> parent (nodes g' ! k) = Some cur)"

text \<open>
  For a list of moves none of which can be parsed on a board: the test on one element
  (a result string is skipped by the loop anyway), and the error the loop records for it.
\<close>

fun cannotParse :: "Board \<Rightarrow> PgnMove \<Rightarrow> bool" where
  "cannotParse board (ResultString s) = True"
| "cannotParse board (MoveRecord nt cm ca ng vs) = isl (parseMove nt board)"

fun recordError :: "string \<Rightarrow> PgnMove \<Rightarrow> GameError list" where
  "recordError f (ResultString s) = []"
| "recordError f (MoveRecord nt cm ca ng vs) = [parseError nt f]"

section \<open>Boards that a FEN can describe\<close>

text \<open>
  \<open>Number.isSafeInteger\<close>: a whole number of magnitude at most \<open>2^53 - 1\<close>.
\<close>

definition safeInteger :: "int \<Rightarrow> bool" where
  "safeInteger n = (- 9007199254740991 \<le> n \<and> n \<le> 9007199254740991)"

text \<open>
  The states that the six fields of a FEN can express: 64 squares, each empty or holding
  a piece of one of the six types; castling rights within the four flag bits; an
  en-passant square, when there is one, on the board; two clocks that are safe integers
  (a larger one is printed in exponent form from \<open>1e21\<close> on, of which \<open>parseInt\<close>
  reads the leading digit only); and a fullmove number other than 0, which \<open>setFen\<close>
  reads as missing (\<open>parseInt(s) || 1\<close>). All of these fields can be set freely through
  the setters of \<open>Board\<close> and through \<open>setPieceAt\<close>.
\<close>

definition cellOk :: "cell \<Rightarrow> bool" where
  "cellOk c = (case c of
                 Undefined \<Rightarrow> False
               | Null \<Rightarrow> True
               | Occupied p \<Rightarrow> 1 \<le> pieceType p \<and> pieceType p \<le> 6)"

definition wellFormed :: "Board \<Rightarrow> bool" where
  "wellFormed b =
     (length (pieces b) = 64 \<and> list_all cellOk (pieces b)
      \<and> 0 \<le> castlingRights b \<and> castlingRights b < 16
      \<and> (case epSquare b of None \<Rightarrow> True | Some sq \<Rightarrow> 0 \<le> sq \<and> sq < 64)
      \<and> safeInteger (halfmoveClock b)
      \<and> safeInteger (fullmoveNumber b) \<and> fullmoveNumber b \<noteq> 0)"

section \<open>Board cache of a game node (pgn/game-node.ts)\<close>

text \<open>
  \<open>GameNode.board()\<close> hands out \<open>Board\<close> objects and keeps one in the private field
  \<open>_board\<close>, so what matters is which object is which. The \<open>Board\<close> objects live in a
  heap, the list of all boards made so far: an object is referred to by its position in
  that list, \<open>new Board(...)\<close> and \<open>copy()\<close> take the next position, and a method that
  mutates a board replaces the entry at its position. The array \<open>pieces\<close> is never shared
  between two boards (\<open>copy\<close>, \<open>saveState\<close> and \<open>restoreState\<close> each spread it into a
  new array) and a \<open>Piece\<close> has only read-only fields, so a board in the heap is a value.
  The two cache fields of the node at position \<open>i\<close> of the game's store are entry \<open>i\<close>
  of \<open>caches\<close>.
\<close>

record BoardCache =
  cachedBoard :: "nat option"
  boardValid :: bool

record Heap =
  boards :: "Board list"
  caches :: "BoardCache list"

text \<open>\<open>new Board(fen)\<close>: when the constructor throws, no object comes into being.\<close>

definition newBoardAt :: "string \<Rightarrow> Heap \<Rightarrow> (error + nat) \<times> Heap" where
  "newBoardAt f h =
     (case newBoard f of
        Inl e \<Rightarrow> (Inl e, h)
      | Inr b \<Rightarrow> (Inr (length (boards h)), h\<lparr>boards := boards h @ [b]\<rparr>))"

text \<open>\<open>x.copy()\<close> for the board at position \<open>a\<close>: the copy is a new object.\<close>

definition copyAt :: "nat \<Rightarrow> Heap \<Rightarrow> nat \<times> Heap" where
  "copyAt a h = (length (boards h), h\<lparr>boards := boards h @ [copy (boards h ! a)]\<rparr>)"

text \<open>\<open>x.push(move)\<close> for the board at position \<open>a\<close>; the object is mutated also when the call throws.\<close>

definition pushAt :: "Move \<Rightarrow> nat \<Rightarrow> Heap \<Rightarrow> (error + unit) \<times> Heap" where
  "pushAt m a h =
     (case push m (boards h ! a) of (r, b') \<Rightarrow> (r, h\<lparr>boards := (boards h)[a := b']\<rparr>))"

text \<open>
  The root of the store is the \<open>Game\<close>, whose \<open>getStartingFen\<close> is
  \<open>this.headers.get('FEN') ?? STARTING_FEN\<close>.
\<close>

definition getStartingFen :: "Game \<Rightarrow> string" where
  "getStartingFen g = (case map_of (headers g) ''FEN'' of None \<Rightarrow> STARTING_FEN | Some f \<Rightarrow> f)"

text \<open>
  The steps of \<open>board()\<close> after the board of the parent has been obtained:
  \<open>if (this.move) board.push(this.move)\<close>, and then
  \<open>this._board = board.copy(); this._boardValid = true; return board\<close>. A throw of an
  earlier step is passed on.
\<close>

definition applyMove :: "Move option \<Rightarrow> (error + nat) \<times> Heap \<Rightarrow> (error + nat) \<times> Heap" where
  "applyMove mv res =
     (case res of
        (Inl e, h) \<Rightarrow> (Inl e, h)
      | (Inr a, h) \<Rightarrow>
          (case mv of
             None \<Rightarrow> (Inr a, h)
           | Some m \<Rightarrow> (case pushAt m a h of (Inl e, h1) \<Rightarrow> (Inl e, h1) | (Inr u, h1) \<Rightarrow> (Inr a, h1))))"

definition cacheResult :: "nat \<Rightarrow> (error + nat) \<times> Heap \<Rightarrow> (error + nat) \<times> Heap" where
  "cacheResult n res =
     (case res of
        (Inl e, h) \<Rightarrow> (Inl e, h)
      | (Inr a, h) \<Rightarrow>
          (case copyAt a h of
             (c, h1) \<Rightarrow>
               (Inr a, h1\<lparr>caches := (caches h1)[n := \<lparr>cachedBoard = Some c, boardValid = True\<rparr>]\<rparr>)))"

text \<open>
  \<open>board()\<close> of the node at position \<open>n\<close>. The method calls itself on the parent, and
  nothing in the class keeps the parent references from forming a cycle, on which the
  call would never return. The first argument bounds the depth of the calls: the result
  \<^term>\<open>None\<close> says that the bound was reached. Otherwise the result is the position of
  the board returned, or the error thrown, together with the heap as the call leaves it.
\<close>

fun nodeBoard :: "nat \<Rightarrow> Game \<Rightarrow> nat \<Rightarrow> Heap \<Rightarrow> ((error + nat) \<times> Heap) option" where
  "nodeBoard 0 g n h = None"
| "nodeBoard (Suc k) g n h =
     (if boardValid (caches h ! n) \<and> cachedBoard (caches h ! n) \<noteq> None then
        (case copyAt (the (cachedBoard (caches h ! n))) h of (a, h1) \<Rightarrow> Some (Inr a, h1))
      else
        (case parent (nodes g ! n) of
           None \<Rightarrow> Some (cacheResult n (newBoardAt (getStartingFen g) h))
         | Some p \<Rightarrow>
             (case nodeBoard k g p h of
                None \<Rightarrow> None
              | Some res \<Rightarrow> Some (cacheResult n (applyMove (nodeMove (nodes g ! n)) res)))))"

text \<open>\<open>node.fen()\<close> is \<open>this.board().fen()\<close>.\<close>

definition nodeFen :: "nat \<Rightarrow> Game \<Rightarrow> nat \<Rightarrow> Heap \<Rightarrow> ((error + string) \<times> Heap) option" where
  "nodeFen k g n h =
     (case nodeBoard k g n h of
        None \<Rightarrow> None
      | Some (Inl e, h1) \<Rightarrow> Some (Inl e, h1)
      | Some (Inr a, h1) \<Rightarrow> Some (fen (boards h1 ! a), h1))"

text \<open>
  The stores and heaps considered: every parent comes before its children in the store,
  which is the order in which the tree builder makes the nodes, and a cache field refers
  to a board that exists.
\<close>

definition treeShaped :: "Game \<Rightarrow> bool" where
  "treeShaped g =
     list_all (\<lambda>i. case parent (nodes g ! i) of None \<Rightarrow> True | Some p \<Rightarrow> p < i) [0..<length (nodes g)]"

definition heapOk :: "Game \<Rightarrow> Heap \<Rightarrow> bool" where
  "heapOk g h =
     (length (caches h) = length (nodes g)
      \<and> list_all (\<lambda>c. case cachedBoard c of None \<Rightarrow> True | Some a \<Rightarrow> a < length (boards h)) (caches h))"

text \<open>The heap before any call: no board yet, every cache empty.\<close>

definition emptyHeap :: "Game \<Rightarrow> Heap" where
  "emptyHeap g =
     \<lparr>boards = [], caches = replicate (length (nodes g)) \<lparr>cachedBoard = None, boardValid = False\<rparr>\<rparr>"

text \<open>
  What a call may leave behind, from the heap \<open>h\<close> to its result: the cache fields still
  refer to boards that exist, no board was removed, the boards that existed are
  unchanged, and a board that is returned was made during the call and is not referred
  to by the cache of any node.
\<close>

definition freshResult :: "Game \<Rightarrow> Heap \<Rightarrow> (error + nat) \<times> Heap \<Rightarrow> bool" where
  "freshResult g h res =
     (case res of
        (r, h1) \<Rightarrow>
          heapOk g h1 \<and> length (boards h) \<le> length (boards h1)
          \<and> (\<forall>i<length (boards h). boards h1 ! i = boards h ! i)
          \<and> (case r of
                Inl e \<Rightarrow> True
              | Inr a \<Rightarrow>
                  length (boards h) \<le> a \<and> a < length (boards h1)
                  \<and> (\<forall>i<length (nodes g). cachedBoard (caches h1 ! i) \<noteq> Some a)))"

section \<open>Equations for evaluation\<close>

text \<open>
  The same functions, written with tests and projections in place of case distinctions
  whose branches bind the result of a call. Each equation is proved from the definition;
  they only serve to run the definitions on concrete inputs step by step.
\<close>

lemma truthy_Occupied: "truthy c \<Longrightarrow> c = Occupied (thePiece c)"
  by (cases c) (simp_all add: truthy_def)

lemma fenRowFrom_eval [code]:
  "fenRowFrom ps rank [] row nEmpty = Inr (if nEmpty > 0 then row @ toString nEmpty else row)"
  "fenRowFrom ps rank (file # files) row nEmpty =
     (let c = aget ps (squareFromFileRank file rank)
      in if truthy c then
           (let s = symbol (thePiece c)
            in if isl s then Inl (projl s)
               else fenRowFrom ps rank files ((if nEmpty > 0 then row @ toString nEmpty else row) @ projr s) 0)
         else fenRowFrom ps rank files row (nEmpty + 1))"
  by (simp_all add: Let_def truthy_def split: cell.splits sum.splits)

lemma fenRows_eval [code]:
  "fenRows ps [] = Inr []"
  "fenRows ps (rank # ranks) =
     (let r = fenRow ps rank
      in if isl r then Inl (projl r)
         else (let rs = fenRows ps ranks
               in if isl rs then Inl (projl rs) else Inr (projr r # projr rs)))"
  by (simp_all add: Let_def split: sum.splits)

lemma setFenRow_eval [code]:
  "setFenRow [] rank file ps = (Inr (), ps)"
  "setFenRow (c # cs) rank file ps =
     (if charCode (CHR ''1'') \<le> charCode c \<and> charCode c \<le> charCode (CHR ''8'')
      then setFenRow cs rank (file + (charCode c - 48)) ps
      else (let r = fromSymbol [c]
            in if isl r then (Inl (projl r), ps)
               else setFenRow cs rank (file + 1) (aset ps (squareFromFileRank file rank) (Occupied (projr r)))))"
  by (simp_all add: Let_def split: sum.splits)

lemma setFenRows_eval [code]:
  "setFenRows rows [] ps = (Inr (), ps)"
  "setFenRows rows (rank # ranks) ps =
     (let r = setFenRow (rows ! nat (7 - rank)) rank 0 ps
      in if isl (fst r) then r else setFenRows rows ranks (snd r))"
  by (auto simp: Let_def split: prod.splits sum.splits)

lemma newBoard_eval [code]:
  "newBoard f = (let r = setFen f emptyBoard in if isl (fst r) then Inl (projl (fst r)) else Inr (snd r))"
  by (auto simp: newBoard_def Let_def split: prod.splits sum.splits)

lemma parseMove_eval [code]:
  "parseMove nt b =
     (if nt = None then Inl (Error ''Move has no notation'')
      else (let n = the nt
            in if n_notation n = ''Z0'' \<or> n_notation n = ''--'' then Inr Move_null
               else if n_notation n = ''O-O'' \<or> n_notation n = ''0-0'' then parseSan ''O-O'' b
               else if n_notation n = ''O-O-O'' \<or> n_notation n = ''0-0-0'' then parseSan ''O-O-O'' b
               else if n_drop n then
                 (let sq = parseSquare (n_col n @ n_row n)
                  in if sq = None then Inl (Error (''Invalid drop square: '' @ n_col n @ n_row n))
                     else Inr (mkMove 0 (the sq) None (figMap (case n_fig n of None \<Rightarrow> ''P'' | Some f \<Rightarrow> f))))
               else
                 (let r = parseSan (n_notation n) b
                  in if \<not> isl r then r
                     else (let sq = parseSquare (n_col n @ n_row n)
                           in if sq = None then Inl (Error (''Invalid target square: '' @ n_col n @ n_row n))
                              else (let found = find (fallbackMatches n (the sq) b) (legalMoves b)
                                    in if found = None
                                       then Inl (Error (''Could not find legal move for: '' @ n_notation n))
                                       else Inr (the found))))))"
  by (auto simp: parseMove_def Let_def split: option.splits sum.splits)

lemma buildLoop_eval [code]:
  "buildLoop cur board [] g = (Inr (), g)"
  "buildLoop cur board (ResultString s # ms) g = buildLoop cur board ms g"
  "buildLoop cur board (MoveRecord nt cm ca ng vs # ms) g =
     (let r = parseMove nt board
      in if isl r then
           (let f = fen board
            in if isl f then (Inl (projl f), g)
               else buildLoop cur board ms (g\<lparr>errors := errors g @ [parseError nt (projr f)]\<rparr>))
         else
           (let g1 = appendChild cur (newNode cur (projr r) cm ca ng) g;
                f = fen board
            in if isl f then (Inl (projl f), g1)
               else (let p = push (projr r) board
                     in if isl (fst p) then (Inl (projl (fst p)), g1)
                        else (let v = buildVariations cur (projr f) vs g1
                              in if isl (fst v) then v
                                 else buildLoop (length (nodes g)) (snd p) ms (snd v)))))"
  by (auto simp: Let_def split: prod.splits sum.splits)

lemma buildVariations_eval [code]:
  "buildVariations cur f [] g = (Inr (), g)"
  "buildVariations cur f (variationMoves # vs) g =
     (if variationMoves \<noteq> [] then
        (let nb = newBoard f
         in if isl nb then (Inl (projl nb), g)
            else (let r = buildLoop cur (copy (projr nb)) variationMoves g
                  in if isl (fst r) then r else buildVariations cur f vs (snd r)))
      else buildVariations cur f vs g)"
  by (auto simp: Let_def split: prod.splits sum.splits)

lemma buildMoveTree_eval [code]:
  "buildMoveTree parentNode ms board parentBoardFen g =
     (if parentBoardFen = None \<and> isl (fen board) then (Inl (projl (fen board)), g)
      else buildLoop parentNode (copy board) ms g)"
  by (auto simp: buildMoveTree_def split: option.splits sum.splits)

lemma buildGameTree_eval [code]:
  "buildGameTree pt =
     (let g0 = newGame\<lparr>headers := foldl (\<lambda>hs (k, v). if k \<noteq> ''messages'' then setHeader k v hs else hs) [] (tags pt)\<rparr>;
          g1 = (case gameComment pt of
                  None \<Rightarrow> g0
                | Some c \<Rightarrow> g0\<lparr>nodes := [(nodes g0 ! 0)\<lparr>comment := c\<rparr>]\<rparr>);
          startingFen = (case map_of (headers g1) ''FEN'' of None \<Rightarrow> STARTING_FEN | Some f \<Rightarrow> f);
          nb = newBoard startingFen
      in if isl nb then Inl (projl nb)
         else if moves pt \<noteq> [] then
           (let r = buildMoveTree 0 (moves pt) (projr nb) None g1
            in if isl (fst r) then Inl (projl (fst r)) else Inr (snd r))
         else Inr g1)"
  by (auto simp: buildGameTree_def Let_def split: prod.splits sum.splits)

section \<open>Example positions\<close>

text \<open>
  Positions used to run the definitions on concrete inputs. Each is the board that the
  constructor builds from the FEN given (checked below by evaluation).
\<close>

definition wh :: "PieceType \<Rightarrow> cell" where
  "wh t = Occupied (mkPiece t WHITE)"

definition bl :: "PieceType \<Rightarrow> cell" where
  "bl t = Occupied (mkPiece t BLACK)"

definition startPosition :: Board where
  "startPosition =
     \<lparr>turn = WHITE, castlingRights = 15, epSquare = None, halfmoveClock = 0, fullmoveNumber = 1,
      pieces =
       [wh ROOK, wh KNIGHT, wh BISHOP, wh QUEEN, wh KING, wh BISHOP, wh KNIGHT, wh ROOK,
        wh PAWN, wh PAWN, wh PAWN, wh PAWN, wh PAWN, wh PAWN, wh PAWN, wh PAWN,
        Null, Null, Null, Null, Null, Null, Null, Null,
        Null, Null, Null, Null, Null, Null, Null, Null,
        Null, Null, Null, Null, Null, Null, Null, Null,
        Null, Null, Null, Null, Null, Null, Null, Null,
        bl PAWN, bl PAWN, bl PAWN, bl PAWN, bl PAWN, bl PAWN, bl PAWN, bl PAWN,
        bl ROOK, bl KNIGHT, bl BISHOP, bl QUEEN, bl KING, bl BISHOP, bl KNIGHT, bl ROOK],
      moveStack = []\<rparr>"

text \<open>After 1. e4 e6 2. e5 d5: White may capture en passant on d6.\<close>

definition enPassantPosition :: Board where
  "enPassantPosition =
     \<lparr>turn = WHITE, castlingRights = 15, epSquare = Some 43, halfmoveClock = 0, fullmoveNumber = 3,
      pieces =
       [wh ROOK, wh KNIGHT, wh BISHOP, wh QUEEN, wh KING, wh BISHOP, wh KNIGHT, wh ROOK,
        wh PAWN, wh PAWN, wh PAWN, wh PAWN, Null, wh PAWN, wh PAWN, wh PAWN,
        Null, Null, Null, Null, Null, Null, Null, Null,
        Null, Null, Null, Null, Null, Null, Null, Null,
        Null, Null, Null, bl PAWN, wh PAWN, Null, Null, Null,
        Null, Null, Null, Null, bl PAWN, Null, Null, Null,
        bl PAWN, bl PAWN, bl PAWN, Null, Null, bl PAWN, bl PAWN, bl PAWN,
        bl ROOK, bl KNIGHT, bl BISHOP, bl QUEEN, bl KING, bl BISHOP, bl KNIGHT, bl ROOK],
      moveStack = []\<rparr>"

text \<open>
  The parse tree of the PGN \<open>1. e4 e5 (1... c5 2. Nf3) 2. Nf3 *\<close>: the variation is
  attached to the record of \<open>e5\<close>, the move it is an alternative to, and the result token
  ends the list.
\<close>

definition sanRecord :: "string \<Rightarrow> string option \<Rightarrow> string \<Rightarrow> string \<Rightarrow> PgnMove list list \<Rightarrow> PgnMove" where
  "sanRecord n fig col row vs =
     MoveRecord
       (Some \<lparr>n_notation = n, n_fig = fig, n_col = col, n_row = row, n_disc = None,
              n_promotion = None, n_drop = False\<rparr>)
       None None [] vs"

definition exampleParseTree :: ParseTree where
  "exampleParseTree =
     \<lparr>tags = [], gameComment = None,
      moves =
        [sanRecord ''e4'' None ''e'' ''4'' [],
         sanRecord ''e5'' None ''e'' ''5''
           [[sanRecord ''c5'' None ''c'' ''5'' [], sanRecord ''Nf3'' (Some ''N'') ''f'' ''3'' []]],
         sanRecord ''Nf3'' (Some ''N'') ''f'' ''3'' [],
         ResultString ''*'']\<rparr>"

definition moveNode :: "nat \<Rightarrow> Move \<Rightarrow> nat list \<Rightarrow> GameNode" where
  "moveNode p mv ks =
     \<lparr>parent = Some p, nodeMove = Some mv, variations = ks, comment = [], startingComment = [],
      nags = []\<rparr>"

definition exampleGame :: Game where
  "exampleGame =
     \<lparr>nodes =
        [\<lparr>parent = None, nodeMove = None, variations = [1], comment = [], startingComment = [],
           nags = []\<rparr>,
         moveNode 0 (mkMove 12 28 None None) [2, 3],
         moveNode 1 (mkMove 52 36 None None) [5],
         moveNode 1 (mkMove 50 34 None None) [4],
         moveNode 3 (mkMove 6 21 None None) [],
         moveNode 2 (mkMove 6 21 None None) []],
      errors = [], headers = []\<rparr>"

text \<open>
  The same build one step in: the store and the board after \<open>1. e4\<close> has been added
  under the root, and the moves that remain.
\<close>

definition storeAfterE4 :: Game where
  "storeAfterE4 =
     \<lparr>nodes =
        [\<lparr>parent = None, nodeMove = None, variations = [1], comment = [], startingComment = [],
           nags = []\<rparr>,
         moveNode 0 (mkMove 12 28 None None) []],
      errors = [], headers = []\<rparr>"

definition boardAfterE4 :: Board where
  "boardAfterE4 = snd (push (mkMove 12 28 None None) (copy startPosition))"

definition notationE5 :: "Notation option" where
  "notationE5 =
     Some \<lparr>n_notation = ''e5'', n_fig = None, n_col = ''e'', n_row = ''5'', n_disc = None,
           n_promotion = None, n_drop = False\<rparr>"

definition variationC5 :: "PgnMove list" where
  "variationC5 = [sanRecord ''c5'' None ''c'' ''5'' [], sanRecord ''Nf3'' (Some ''N'') ''f'' ''3'' []]"

definition movesAfterE5 :: "PgnMove list" where
  "movesAfterE5 = [sanRecord ''Nf3'' (Some ''N'') ''f'' ''3'' [], ResultString ''*'']"

text \<open>
  A move list whose first record cannot be played: \<open>e5\<close> by White from the starting
  position, followed by \<open>e4\<close>.
\<close>

definition gameWithError :: Game where
  "gameWithError =
     \<lparr>nodes =
        [\<lparr>parent = None, nodeMove = None, variations = [1], comment = [], startingComment = [],
           nags = []\<rparr>,
         moveNode 0 (mkMove 12 28 None None) []],
      errors =
        [\<lparr>message = ''Failed to parse move: e5'', errSan = Some ''e5'',
          errFen = ''rnbqkbnr/pppppppp/8/8/8/8/PPPPPPPP/RNBQKBNR w KQkq - 0 1''\<rparr>],
      headers = []\<rparr>"

text \<open>
  Two artificial positions: White with knights on b1 and f1, both able to go to d2
  (FEN \<open>4k3/8/8/8/8/8/8/1N2KN2 w - - 0 1\<close>), and White with two kings, on e1 and h2, and
  the right to castle short (FEN \<open>8/8/8/8/8/8/7K/4K2R w K - 0 1\<close>).
\<close>

definition twoKnights :: Board where
  "twoKnights =
     \<lparr>turn = WHITE, castlingRights = 0, epSquare = None, halfmoveClock = 0, fullmoveNumber = 1,
      pieces =
       [Null, wh KNIGHT, Null, Null, wh KING, wh KNIGHT, Null, Null,
        Null, Null, Null, Null, Null, Null, Null, Null,
        Null, Null, Null, Null, Null, Null, Null, Null,
        Null, Null, Null, Null, Null, Null, Null, Null,
        Null, Null, Null, Null, Null, Null, Null, Null,
        Null, Null, Null, Null, Null, Null, Null, Null,
        Null, Null, Null, Null, Null, Null, Null, Null,
        Null, Null, Null, Null, bl KING, Null, Null, Null],
      moveStack = []\<rparr>"

definition twoKings :: Board where
  "twoKings =
     \<lparr>turn = WHITE, castlingRights = 1, epSquare = None, halfmoveClock = 0, fullmoveNumber = 1,
      pieces =
       [Null, Null, Null, Null, wh KING, Null, Null, wh ROOK,
        Null, Null, Null, Null, Null, Null, Null, wh KING,
        Null, Null, Null, Null, Null, Null, Null, Null,
        Null, Null, Null, Null, Null, Null, Null, Null,
        Null, Null, Null, Null, Null, Null, Null, Null,
        Null, Null, Null, Null, Null, Null, Null, Null,
        Null, Null, Null, Null, Null, Null, Null, Null,
        Null, Null, Null, Null, Null, Null, Null, Null],
      moveStack = []\<rparr>"

text \<open>
  White queens on e4, h4 and h1, all able to go to e1
  (FEN \<open>1k6/8/8/8/4Q2Q/8/8/K6Q w - - 0 1\<close>).
\<close>

definition threeQueens :: Board where
  "threeQueens =
     \<lparr>turn = WHITE, castlingRights = 0, epSquare = None, halfmoveClock = 0, fullmoveNumber = 1,
      pieces =
       [wh KING, Null, Null, Null, Null, Null, Null, wh QUEEN,
        Null, Null, Null, Null, Null, Null, Null, Null,
        Null, Null, Null, Null, Null, Null, Null, Null,
        Null, Null, Null, Null, wh QUEEN, Null, Null, wh QUEEN,
        Null, Null, Null, Null, Null, Null, Null, Null,
        Null, Null, Null, Null, Null, Null, Null, Null,
        Null, Null, Null, Null, Null, Null, Null, Null,
        Null, bl KING, Null, Null, Null, Null, Null, Null],
      moveStack = []\<rparr>"

text \<open>
  The heap after the first call of \<open>board()\<close> on the node of \<open>1... e5\<close> in the example
  game, which returns the board at position 0, and that board after the caller has
  played \<open>2. Nf3\<close> on it.
\<close>

definition heapAfterE5 :: Heap where
  "heapAfterE5 = snd (the (nodeBoard 3 exampleGame 2 (emptyHeap exampleGame)))"

definition boardAfterNf3 :: Board where
  "boardAfterNf3 = snd (push (mkMove 6 21 None None) (boards heapAfterE5 ! 0))"

section \<open>Properties of the move value\<close>

lemma tmpl_Some [simp]: "tmpl (Some s) = s"
  by (simp add: tmpl_def)

lemma length_SQUARE_NAMES: "length SQUARE_NAMES = 64"
  by (simp add: SQUARE_NAMES_def)

lemma square_names_all:
  "list_all (\<lambda>n. parseSquare (SQUARE_NAMES ! n) = Some (int n) \<and> length (SQUARE_NAMES ! n) = 2
      \<and> CHR ''@'' \<notin> set (SQUARE_NAMES ! n) \<and> CHR ''0'' \<notin> set (SQUARE_NAMES ! n)) [0..<64]"
  by code_simp

lemma squareName_props:
  assumes "0 \<le> i" "i < 64"
  obtains s where "squareName i = Some s" "length s = 2" "parseSquare s = Some i"
    "CHR ''@'' \<notin> set s" "CHR ''0'' \<notin> set s"
proof -
  have n: "nat i \<in> set [0..<64]" using assms by auto
  from square_names_all n
  have "parseSquare (SQUARE_NAMES ! nat i) = Some (int (nat i)) \<and> length (SQUARE_NAMES ! nat i) = 2
      \<and> CHR ''@'' \<notin> set (SQUARE_NAMES ! nat i) \<and> CHR ''0'' \<notin> set (SQUARE_NAMES ! nat i)"
    unfolding list_all_iff by blast
  moreover have "squareName i = Some (SQUARE_NAMES ! nat i)"
    using assms by (simp add: squareName_def js_nth_def length_SQUARE_NAMES)
  ultimately show ?thesis using that assms by simp
qed

lemma fromUci_plain:
  assumes "0 \<le> f" "f < 64" "0 \<le> t" "t < 64"
  shows "fromUci (uci (mkMove f t None None)) = Inr (mkMove f t None None)"
proof -
  obtain a where a: "squareName f = Some a" "length a = 2" "parseSquare a = Some f"
    "CHR ''@'' \<notin> set a" "CHR ''0'' \<notin> set a"
    using assms squareName_props by blast
  obtain b where b: "squareName t = Some b" "length b = 2" "parseSquare b = Some t"
    "CHR ''@'' \<notin> set b" "CHR ''0'' \<notin> set b"
    using assms squareName_props by blast
  define u where "u = a @ b"
  have u: "uci (mkMove f t None None) = u"
    by (simp add: uci_def mkMove_def a b u_def)
  have len: "length u = 4" using a(2) b(2) by (simp add: u_def)
  have "CHR ''0'' \<notin> set u" using a(5) b(5) by (simp add: u_def)
  then have ne: "u \<noteq> ''0000''" by auto
  have at: "CHR ''@'' \<notin> set u" using a(4) b(4) by (simp add: u_def)
  have s1: "slice u 0 2 = a" using a(2) by (simp add: slice_def u_def)
  have s2: "slice u 2 4 = b" using a(2) b(2) by (simp add: slice_def u_def)
  show ?thesis
    unfolding u fromUci_def by (simp add: len ne at s1 s2 a(3) b(3))
qed

lemma fromUci_promo:
  assumes "0 \<le> f" "f < 64" "0 \<le> t" "t < 64" "p \<in> {KNIGHT, BISHOP, ROOK, QUEEN}"
  shows "fromUci (uci (mkMove f t (Some p) None)) = Inr (mkMove f t (Some p) None)"
proof -
  obtain a where a: "squareName f = Some a" "length a = 2" "parseSquare a = Some f"
    "CHR ''@'' \<notin> set a" "CHR ''0'' \<notin> set a"
    using assms squareName_props by blast
  obtain b where b: "squareName t = Some b" "length b = 2" "parseSquare b = Some t"
    "CHR ''@'' \<notin> set b" "CHR ''0'' \<notin> set b"
    using assms squareName_props by blast
  obtain c where c: "tmpl (js_nth ['''', '''', ''n'', ''b'', ''r'', ''q''] p) = [c]"
     "promotionMap (toLowerCase [c]) = Some p" "c \<noteq> CHR ''@''"
    using assms(5)
    by (auto simp: js_nth_def tmpl_def promotionMap_def toLowerCase_def lowerChar_def charCode_def)
  define u where "u = a @ b @ [c]"
  have u: "uci (mkMove f t (Some p) None) = u"
    by (simp add: uci_def mkMove_def a b c u_def)
  have len: "length u = 5" using a(2) b(2) by (simp add: u_def)
  then have ne: "u \<noteq> ''0000''" by auto
  have at: "CHR ''@'' \<notin> set u" using a(4) b(4) c(3) by (simp add: u_def)
  have s1: "slice u 0 2 = a" using a(2) by (simp add: slice_def u_def)
  have s2: "slice u 2 4 = b" using a(2) b(2) by (simp add: slice_def u_def)
  have n4: "u ! 4 = c" using a(2) b(2) by (simp add: nth_append u_def)
  show ?thesis
    unfolding u fromUci_def by (simp add: len ne at s1 s2 n4 a(3) b(3) c(2))
qed

lemma fromUci_drop:
  assumes "0 \<le> t" "t < 64" "1 \<le> d" "d \<le> 6"
  shows "fromUci (uci (mkMove 0 t None (Some d))) = Inr (mkMove 0 t None (Some d))"
proof -
  obtain b where b: "squareName t = Some b" "length b = 2" "parseSquare b = Some t"
    "CHR ''@'' \<notin> set b" "CHR ''0'' \<notin> set b"
    using assms squareName_props by blast
  have "d \<in> {1, 2, 3, 4, 5, 6}" using assms by auto
  then obtain c where c: "tmpl (js_nth ['''', ''P'', ''N'', ''B'', ''R'', ''Q'', ''K''] d) = [c]"
     "indexOf ['''', ''P'', ''N'', ''B'', ''R'', ''Q'', ''K''] (toUpperCase [c]) = d"
    by (auto simp: js_nth_def tmpl_def indexOf_def toUpperCase_def upperChar_def charCode_def)
  define u where "u = [c] @ ''@'' @ b"
  have u: "uci (mkMove 0 t None (Some d)) = u"
    by (simp add: uci_def mkMove_def b c u_def)
  have len: "length u = 4" using b(2) by (simp add: u_def)
  have at: "CHR ''@'' \<in> set u" by (simp add: u_def)
  then have ne: "u \<noteq> ''0000''" by auto
  have s2: "slice u 2 4 = b" using b(2) by (simp add: slice_def u_def)
  have n0: "u ! 0 = c" by (simp add: u_def)
  show ?thesis
    unfolding u fromUci_def by (simp add: len ne at s2 n0 b(3) c(2))
qed

text \<open>
  Claim C7, as the code has it. \<open>Move.fromUci(m.uci())\<close> gives back \<open>m\<close> for every move
  with both squares in 0..63 whose promotion is absent or one of knight, bishop, rook and
  queen, and which either is no drop, or is a drop of a piece type 1..6 that has origin
  square 0 and no promotion (the shape \<open>fromUci\<close> itself builds for a drop).
\<close>

theorem fromUci_uci_roundtrip:
  assumes "0 \<le> fromSquare m" "fromSquare m < 64" "0 \<le> toSquare m" "toSquare m < 64"
    and "promotion m \<in> {None, Some KNIGHT, Some BISHOP, Some ROOK, Some QUEEN}"
    and "dropPiece m = None \<or>
         (\<exists>d. dropPiece m = Some d \<and> 1 \<le> d \<and> d \<le> 6 \<and> fromSquare m = 0 \<and> promotion m = None)"
  shows "fromUci (uci (m::Move)) = Inr m"
proof -
  have m: "m = mkMove (fromSquare m) (toSquare m) (promotion m) (dropPiece m)"
    by (simp add: mkMove_def)
  show ?thesis
  proof (cases "dropPiece m")
    case None
    show ?thesis
    proof (cases "promotion m")
      case pn: None
      have "fromUci (uci (mkMove (fromSquare m) (toSquare m) None None))
            = Inr (mkMove (fromSquare m) (toSquare m) None None)"
        using assms(1-4) by (rule fromUci_plain)
      then show ?thesis using m None pn by simp
    next
      case (Some p)
      then have "p \<in> {KNIGHT, BISHOP, ROOK, QUEEN}" using assms(5) by auto
      then have "fromUci (uci (mkMove (fromSquare m) (toSquare m) (Some p) None))
            = Inr (mkMove (fromSquare m) (toSquare m) (Some p) None)"
        using assms(1-4) fromUci_promo by blast
      then show ?thesis using m None Some by simp
    qed
  next
    case (Some d)
    then have d: "1 \<le> d" "d \<le> 6" "fromSquare m = 0" "promotion m = None"
      using assms(6) by auto
    have "fromUci (uci (mkMove 0 (toSquare m) None (Some d))) = Inr (mkMove 0 (toSquare m) None (Some d))"
      using assms(3,4) d(1,2) by (rule fromUci_drop)
    then show ?thesis using m Some d by simp
  qed
qed

theorem fromUci_uci_roundtrip_witness:
  "fromUci (uci (mkMove 52 60 (Some QUEEN) None)) = Inr (mkMove 52 60 (Some QUEEN) None)
   \<and> fromUci (uci (mkMove 0 28 None (Some KNIGHT))) = Inr (mkMove 0 28 None (Some KNIGHT))"
  using fromUci_uci_roundtrip [of "mkMove 52 60 (Some QUEEN) None"]
        fromUci_uci_roundtrip [of "mkMove 0 28 None (Some KNIGHT)"]
  by (simp add: mkMove_def)

text \<open>
  Claim C7 as stated fails: a move that carries a drop piece and an origin other than
  square 0 comes back with origin 0; a promotion to a pawn comes back without promotion;
  a promotion to a king prints as \<open>e7e8undefined\<close>, which \<open>fromUci\<close> rejects.
\<close>

theorem fromUci_uci_counterexample:
  "fromUci (uci (mkMove 12 28 None (Some QUEEN))) = Inr (mkMove 0 28 None (Some QUEEN))
   \<and> mkMove 0 28 None (Some QUEEN) \<noteq> mkMove 12 28 None (Some QUEEN)
   \<and> fromUci (uci (mkMove 52 60 (Some PAWN) None)) = Inr (mkMove 52 60 None None)
   \<and> mkMove 52 60 None None \<noteq> mkMove 52 60 (Some PAWN) None
   \<and> fromUci (uci (mkMove 52 60 (Some KING) None)) = Inl (Error ''Invalid promotion piece: u'')"
  by code_simp

section \<open>Properties of push and pop\<close>

lemma startPosition_fen: "newBoard STARTING_FEN = Inr startPosition"
  by code_simp

lemma enPassantPosition_fen:
  "newBoard ''rnbqkbnr/ppp2ppp/4p3/3pP3/8/8/PPPP1PPP/RNBQKBNR w KQkq d6 0 3'' = Inr enPassantPosition"
  by code_simp

lemma pop_push: "pop (snd (push m b)) = (Some m, b)"
  by (simp add: push_def pop_def Let_def restoreState_def saveState_def updateStateAfterMove_def
      handleCastling_def split: cell.splits)

lemma push_ok_iff: "fst (push m b) = Inr () \<longleftrightarrow> truthy (aget (pieces b) (fromSquare m))"
  by (simp add: push_def Let_def truthy_def split: cell.splits)

lemma legal_push_ok:
  assumes "m \<in> set (legalMoves b)"
  shows "fst (push m b) = Inr ()"
proof -
  from assms have "isLegalMove m b" by (simp add: legalMoves_def)
  then have "fst (push m (copy b)) = Inr ()"
    by (auto simp: isLegalMove_def split: prod.splits sum.splits)
  then have "truthy (aget (pieces (copy b)) (fromSquare m))" by (simp add: push_ok_iff)
  then show ?thesis by (simp add: push_ok_iff copy_def)
qed

text \<open>
  Claim C2. For a move that is legal in the position, \<open>push\<close> returns normally, and the
  \<open>pop\<close> that follows returns the move and leaves the board equal to the one before the
  push: the side to move, the castling rights, the en-passant square, both clocks, all
  squares, and the move stack as well. On an empty move stack \<open>pop\<close> returns nothing and
  changes nothing.
\<close>

theorem push_pop_restores:
  "(m \<in> set (legalMoves b) \<longrightarrow>
      fst (push m b) = Inr ()
      \<and> fst (pop (snd (push m b))) = Some m
      \<and> turn (snd (pop (snd (push m b)))) = turn b
      \<and> castlingRights (snd (pop (snd (push m b)))) = castlingRights b
      \<and> epSquare (snd (pop (snd (push m b)))) = epSquare b
      \<and> halfmoveClock (snd (pop (snd (push m b)))) = halfmoveClock b
      \<and> fullmoveNumber (snd (pop (snd (push m b)))) = fullmoveNumber b
      \<and> pieces (snd (pop (snd (push m b)))) = pieces b
      \<and> snd (pop (snd (push m b))) = b)
   \<and> (moveStack b = [] \<longrightarrow> pop b = (None, b))"
  by (simp add: pop_push legal_push_ok) (simp add: pop_def)

theorem push_pop_restores_witness:
  "mkMove 12 28 None None \<in> set (legalMoves startPosition)
   \<and> moveStack startPosition = []
   \<and> fst (push (mkMove 12 28 None None) startPosition) = Inr ()
   \<and> pop (snd (push (mkMove 12 28 None None) startPosition)) = (Some (mkMove 12 28 None None), startPosition)
   \<and> epSquare (snd (push (mkMove 12 28 None None) startPosition)) = Some 20
   \<and> pop startPosition = (None, startPosition)"
proof -
  have l: "mkMove 12 28 None None \<in> set (legalMoves startPosition)" by code_simp
  have e: "moveStack startPosition = []" by (simp add: startPosition_def)
  have ep: "epSquare (snd (push (mkMove 12 28 None None) startPosition)) = Some 20" by code_simp
  from push_pop_restores [of "mkMove 12 28 None None" startPosition] l e ep
  show ?thesis by (simp add: prod_eq_iff)
qed

text \<open>
  Claim C10. When the source square of the move holds no piece, \<open>push\<close> throws, and the
  board it leaves differs from the one before only by the undo record appended to the move
  stack, which holds the move and the snapshot of the state before the call. A \<open>pop\<close>
  after the failed push returns that move and gives back exactly the board from before.
\<close>

theorem failed_push_then_pop:
  assumes "\<not> truthy (aget (pieces b) (fromSquare m))"
  shows "push m b =
           (Inl (Error (''No piece at '' @ tmpl (squareName (fromSquare m)))),
            b\<lparr>moveStack := moveStack b @
                 [\<lparr>move = m, capturedPiece = aget (pieces b) (toSquare m), prevState = saveState b\<rparr>]\<rparr>)
         \<and> prevState (last (moveStack (snd (push m b)))) = saveState b
         \<and> pop (snd (push m b)) = (Some m, b)"
  using assms
  by (simp add: pop_push) (simp add: push_def Let_def truthy_def split: cell.splits)

theorem failed_push_then_pop_witness:
  "\<not> truthy (aget (pieces startPosition) (fromSquare (mkMove 28 36 None None)))
   \<and> fst (push (mkMove 28 36 None None) startPosition) = Inl (Error ''No piece at e4'')
   \<and> moveStack (snd (push (mkMove 28 36 None None) startPosition)) =
        [\<lparr>move = mkMove 28 36 None None, capturedPiece = Null, prevState = saveState startPosition\<rparr>]
   \<and> pop (snd (push (mkMove 28 36 None None) startPosition)) = (Some (mkMove 28 36 None None), startPosition)"
proof -
  have h: "\<not> truthy (aget (pieces startPosition) (fromSquare (mkMove 28 36 None None)))"
    by code_simp
  have n: "tmpl (squareName (fromSquare (mkMove 28 36 None None))) = ''e4''" by code_simp
  have c: "aget (pieces startPosition) (toSquare (mkMove 28 36 None None)) = Null" by code_simp
  have e: "moveStack startPosition = []" by (simp add: startPosition_def)
  have r: "startPosition\<lparr>moveStack := [] @ [\<lparr>move = mkMove 28 36 None None, capturedPiece = Null,
              prevState = saveState startPosition\<rparr>]\<rparr>
           = snd (push (mkMove 28 36 None None) startPosition)"
    using failed_push_then_pop [OF h] by (simp add: c e)
  have p: "pop (snd (push (mkMove 28 36 None None) startPosition)) = (Some (mkMove 28 36 None None), startPosition)"
    using failed_push_then_pop [OF h] by blast
  have f: "fst (push (mkMove 28 36 None None) startPosition) = Inl (Error ''No piece at e4'')"
    using failed_push_then_pop [OF h] by (simp add: n)
  have m: "moveStack (snd (push (mkMove 28 36 None None) startPosition)) =
        [\<lparr>move = mkMove 28 36 None None, capturedPiece = Null, prevState = saveState startPosition\<rparr>]"
    unfolding r [symmetric] by simp
  from h f m p show ?thesis by blast
qed

text \<open>
  Claim C8 does not hold of the code. \<open>push\<close> appends the undo record first, with the
  content of the destination square as \<open>capturedPiece\<close>; the pawn taken en passant is
  looked up afterwards and only passed on to the update of the clocks and rights. In the
  position after 1. e4 e6 2. e5 d5 the capture e5xd6 removes the black pawn from d5, and
  the undo record on the stack says that nothing was captured.
\<close>

theorem en_passant_undo_record:
  "aget (pieces enPassantPosition) 36 = wh PAWN
   \<and> epSquare enPassantPosition = Some 43
   \<and> aget (pieces enPassantPosition) 35 = bl PAWN
   \<and> fst (push (mkMove 36 43 None None) enPassantPosition) = Inr ()
   \<and> aget (pieces (snd (push (mkMove 36 43 None None) enPassantPosition))) 35 = Null
   \<and> aget (pieces (snd (push (mkMove 36 43 None None) enPassantPosition))) 43 = wh PAWN
   \<and> capturedPiece (last (moveStack (snd (push (mkMove 36 43 None None) enPassantPosition)))) = Null"
  by code_simp

lemma en_passant_record_general:
  assumes "aget (pieces b) (fromSquare m) = Occupied p" "pieceType p = PAWN"
    and "epSquare b = Some (toSquare m)"
  shows "capturedPiece (last (moveStack (snd (push m b)))) = aget (pieces b) (toSquare m)"
  using assms
  by (simp add: push_def Let_def updateStateAfterMove_def)

section \<open>Properties of the tree builder\<close>

lemma extendsAt_refl: "extendsAt cur g g []"
  by (simp add: extendsAt_def)

lemma extendsAt_errors: "extendsAt cur g (g\<lparr>errors := es\<rparr>) []"
  by (simp add: extendsAt_def)

lemma extendsAt_appendChild:
  assumes "cur < length (nodes g)" "parent nd = Some cur"
  shows "extendsAt cur g (appendChild cur nd g) [length (nodes g)]"
  using assms by (simp add: extendsAt_def appendChild_def nth_append)

lemma extendsAt_trans:
  assumes "extendsAt cur g g1 ks1" "extendsAt cur g1 g2 ks2" "cur < length (nodes g)"
  shows "extendsAt cur g g2 (ks1 @ ks2)"
proof -
  have len: "length (nodes g) \<le> length (nodes g1)" "length (nodes g1) \<le> length (nodes g2)"
    using assms by (simp_all add: extendsAt_def)
  have old: "\<And>i. i < length (nodes g) \<Longrightarrow> i \<noteq> cur \<Longrightarrow> nodes g2 ! i = nodes g ! i"
    using assms len by (simp add: extendsAt_def)
  have cur: "nodes g2 ! cur = (nodes g ! cur)\<lparr>variations := variations (nodes g ! cur) @ ks1 @ ks2\<rparr>"
    using assms by (simp add: extendsAt_def)
  have k1: "\<And>k. k \<in> set ks1 \<Longrightarrow>
      length (nodes g) \<le> k \<and> k < length (nodes g2) \<and> parent (nodes g2 ! k) = Some cur"
  proof -
    fix k assume k: "k \<in> set ks1"
    then have a: "length (nodes g) \<le> k" "k < length (nodes g1)" "parent (nodes g1 ! k) = Some cur"
      using assms(1) by (simp_all add: extendsAt_def)
    then have "k \<noteq> cur" using assms(3) by simp
    then have "nodes g2 ! k = nodes g1 ! k" using assms(2) a(2) by (simp add: extendsAt_def)
    then show "length (nodes g) \<le> k \<and> k < length (nodes g2) \<and> parent (nodes g2 ! k) = Some cur"
      using a len by simp
  qed
  have k2: "\<And>k. k \<in> set ks2 \<Longrightarrow>
      length (nodes g) \<le> k \<and> k < length (nodes g2) \<and> parent (nodes g2 ! k) = Some cur"
    using assms(2) len by (auto simp: extendsAt_def)
  show ?thesis
    unfolding extendsAt_def using len old cur k1 k2 by auto
qed

lemma extendsAt_below:
  assumes "extendsAt cur g g1 ks1" "extendsAt new g1 g2 ks2"
    and "cur < length (nodes g)" "length (nodes g) \<le> new" "new < length (nodes g1)"
  shows "extendsAt cur g g2 ks1"
proof -
  have len: "length (nodes g) \<le> length (nodes g1)" "length (nodes g1) \<le> length (nodes g2)"
    using assms by (simp_all add: extendsAt_def)
  have ne: "new \<noteq> cur" using assms(3,4) by simp
  have old: "\<And>i. i < length (nodes g) \<Longrightarrow> i \<noteq> cur \<Longrightarrow> nodes g2 ! i = nodes g ! i"
    using assms len by (simp add: extendsAt_def)
  have cur: "nodes g2 ! cur = (nodes g ! cur)\<lparr>variations := variations (nodes g ! cur) @ ks1\<rparr>"
    using assms ne len by (simp add: extendsAt_def)
  have k1: "\<And>k. k \<in> set ks1 \<Longrightarrow>
      length (nodes g) \<le> k \<and> k < length (nodes g2) \<and> parent (nodes g2 ! k) = Some cur"
  proof -
    fix k assume k: "k \<in> set ks1"
    then have a: "length (nodes g) \<le> k" "k < length (nodes g1)" "parent (nodes g1 ! k) = Some cur"
      using assms(1) by (simp_all add: extendsAt_def)
    have "parent (nodes g2 ! k) = parent (nodes g1 ! k)"
    proof (cases "k = new")
      case True
      then show ?thesis using assms(2) by (simp add: extendsAt_def)
    next
      case False
      then show ?thesis using assms(2) a(2) by (simp add: extendsAt_def)
    qed
    then show "length (nodes g) \<le> k \<and> k < length (nodes g2) \<and> parent (nodes g2 ! k) = Some cur"
      using a len by simp
  qed
  show ?thesis
    unfolding extendsAt_def using len old cur k1 by auto
qed

lemma build_extends:
  "cur < length (nodes g) \<longrightarrow> (\<exists>ks. extendsAt cur g (snd (buildLoop cur board ms g)) ks)"
  "cur < length (nodes g) \<longrightarrow> (\<exists>ks. extendsAt cur g (snd (buildVariations cur f vs g)) ks)"
proof (induction cur board ms g and cur f vs g rule: buildLoop_buildVariations.induct)
  case (1 cur board g)
  then show ?case using extendsAt_refl by auto
next
  case (2 cur board s ms g)
  then show ?case by simp
next
  case (3 cur board nt cm ca ng vs ms g)
  show ?case
  proof
    assume c: "cur < length (nodes g)"
    show "\<exists>ks. extendsAt cur g (snd (buildLoop cur board (MoveRecord nt cm ca ng vs # ms) g)) ks"
    proof (cases "parseMove nt board")
      case (Inl e)
      show ?thesis
      proof (cases "fen board")
        case fe: (Inl e')
        then show ?thesis using Inl extendsAt_refl by auto
      next
        case (Inr f)
        let ?g1 = "g\<lparr>errors := errors g @ [parseError nt f]\<rparr>"
        from "3.IH"(1) [OF Inl Inr] c
        obtain ks where "extendsAt cur ?g1 (snd (buildLoop cur board ms ?g1)) ks" by auto
        with extendsAt_trans [OF extendsAt_errors this c]
        show ?thesis using Inl Inr by auto
      qed
    next
      case (Inr mv)
      let ?g1 = "appendChild cur (newNode cur mv cm ca ng) g"
      have e1: "extendsAt cur g ?g1 [length (nodes g)]"
        using c by (intro extendsAt_appendChild) (simp_all add: newNode_def)
      have l1: "length (nodes ?g1) = Suc (length (nodes g))" by (simp add: appendChild_def)
      show ?thesis
      proof (cases "fen board")
        case fe: (Inl e')
        then show ?thesis using Inr e1 by auto
      next
        case fr: (Inr f)
        show ?thesis
        proof (cases "push mv board")
          case (Pair r board')
          show ?thesis
          proof (cases r)
            case pl: (Inl e')
            then show ?thesis using Inr fr Pair e1 by auto
          next
            case pr: (Inr u)
            have c1: "cur < length (nodes ?g1)" using c l1 by simp
            from "3.IH"(2) [OF Inr refl fr Pair [symmetric, unfolded pr]] c1
            obtain ks2 where e2: "extendsAt cur ?g1 (snd (buildVariations cur f vs ?g1)) ks2"
              by auto
            have e12: "extendsAt cur g (snd (buildVariations cur f vs ?g1)) ([length (nodes g)] @ ks2)"
              by (rule extendsAt_trans [OF e1 e2 c])
            show ?thesis
            proof (cases "buildVariations cur f vs ?g1")
              case vp: (Pair rv g2)
              show ?thesis
              proof (cases rv)
                case vl: (Inl e')
                then show ?thesis using Inr fr Pair pr vp e12 by auto
              next
                case vr: (Inr u')
                have e2': "extendsAt cur ?g1 g2 ks2" using e2 vp by simp
                have n2: "length (nodes g) < length (nodes g2)"
                  using e2' l1 by (simp add: extendsAt_def)
                from "3.IH"(3) [OF Inr refl fr Pair [symmetric, unfolded pr] refl vp [symmetric, unfolded vr] refl] n2
                obtain ks3 where e3: "extendsAt (length (nodes g)) g2 (snd (buildLoop (length (nodes g)) board' ms g2)) ks3"
                  by auto
                have "extendsAt cur g g2 ([length (nodes g)] @ ks2)" using e12 vp by simp
                from extendsAt_below [OF this e3 c _ n2]
                show ?thesis using Inr fr Pair pr vp vr by auto
              qed
            qed
          qed
        qed
      qed
    qed
  qed
next
  case (4 cur f g)
  then show ?case using extendsAt_refl by auto
next
  case (5 cur f variationMoves vs g)
  show ?case
  proof
    assume c: "cur < length (nodes g)"
    show "\<exists>ks. extendsAt cur g (snd (buildVariations cur f (variationMoves # vs) g)) ks"
    proof (cases "variationMoves \<noteq> []")
      case False
      then show ?thesis using "5.IH"(3) c by simp
    next
      case True
      show ?thesis
      proof (cases "newBoard f")
        case (Inl e)
        then show ?thesis using True extendsAt_refl by auto
      next
        case (Inr varBoard)
        from "5.IH"(1) [OF True Inr] c
        obtain ks1 where e1: "extendsAt cur g (snd (buildLoop cur (copy varBoard) variationMoves g)) ks1"
          by auto
        show ?thesis
        proof (cases "buildLoop cur (copy varBoard) variationMoves g")
          case (Pair r g1)
          show ?thesis
          proof (cases r)
            case il: (Inl e)
            then show ?thesis using True Inr Pair e1 by auto
          next
            case ir: (Inr u)
            have c1: "cur < length (nodes g1)" using e1 Pair c by (simp add: extendsAt_def)
            from "5.IH"(2) [OF True Inr Pair [symmetric, unfolded ir] refl] c1
            obtain ks2 where e2: "extendsAt cur g1 (snd (buildVariations cur f vs g1)) ks2" by auto
            have "extendsAt cur g g1 ks1" using e1 Pair by simp
            from extendsAt_trans [OF this e2 c]
            show ?thesis using True Inr Pair ir by auto
          qed
        qed
      qed
    qed
  qed
qed

lemma extendsAt_other:
  assumes "extendsAt cur g g' ks" "i < length (nodes g)" "i \<noteq> cur"
  shows "nodes g' ! i = nodes g ! i"
  using assms by (simp add: extendsAt_def)

lemma extendsAt_length: "extendsAt cur g g' ks \<Longrightarrow> length (nodes g) \<le> length (nodes g')"
  by (simp add: extendsAt_def)

lemma extendsAt_cur:
  "extendsAt cur g g' ks \<Longrightarrow>
     nodes g' ! cur = (nodes g ! cur)\<lparr>variations := variations (nodes g ! cur) @ ks\<rparr>"
  by (simp add: extendsAt_def)

lemma extendsAt_new:
  "extendsAt cur g g' ks \<Longrightarrow> k \<in> set ks \<Longrightarrow>
     length (nodes g) \<le> k \<and> k < length (nodes g') \<and> parent (nodes g' ! k) = Some cur"
  by (simp add: extendsAt_def)

text \<open>
  The loop over a list that starts with a record whose move parses: the node of that move
  is the first one appended to the current node.
\<close>

lemma buildLoop_first_child:
  assumes c: "cur < length (nodes g)"
    and p: "parseMove nt board = Inr mv"
    and r: "buildLoop cur board (MoveRecord nt cm ca ng vs # ms) g = (Inr (), g')"
  shows "\<exists>ks. extendsAt cur g g' (length (nodes g) # ks)
              \<and> nodeMove (nodes g' ! length (nodes g)) = Some mv"
proof -
  let ?n = "length (nodes g)"
  let ?g1 = "appendChild cur (newNode cur mv cm ca ng) g"
  obtain f where f: "fen board = Inr f"
    using r p by (cases "fen board") (auto simp: Let_def)
  obtain board' where b: "push mv board = (Inr (), board')"
    using r p f by (cases "push mv board") (auto simp: Let_def split: sum.splits)
  obtain g2 where v: "buildVariations cur f vs ?g1 = (Inr (), g2)"
    using r p f b by (cases "buildVariations cur f vs ?g1") (auto simp: Let_def split: sum.splits)
  have rest: "buildLoop ?n board' ms g2 = (Inr (), g')"
    using r p f b v by (simp add: Let_def)
  have e1: "extendsAt cur g ?g1 [?n]"
    using c by (intro extendsAt_appendChild) (simp_all add: newNode_def)
  have l1: "length (nodes ?g1) = Suc ?n" by (simp add: appendChild_def)
  have n1: "nodes ?g1 ! ?n = newNode cur mv cm ca ng"
    using c by (simp add: appendChild_def)
  obtain ks2 where e2: "extendsAt cur ?g1 g2 ks2"
    using build_extends(2) [of cur ?g1 f vs] v c l1 by auto
  have n2: "?n < length (nodes g2)" using extendsAt_length [OF e2] l1 by simp
  obtain ks3 where e3: "extendsAt ?n g2 g' ks3"
    using build_extends(1) [of ?n g2 board' ms] rest n2 by auto
  have e12: "extendsAt cur g g2 ([?n] @ ks2)" by (rule extendsAt_trans [OF e1 e2 c])
  have e: "extendsAt cur g g' ([?n] @ ks2)" by (rule extendsAt_below [OF e12 e3 c _ n2]) simp
  have "nodes g2 ! ?n = nodes ?g1 ! ?n"
    using extendsAt_other [OF e2, of ?n] c l1 by simp
  then have "nodeMove (nodes g' ! ?n) = Some mv"
    using extendsAt_cur [OF e3] n1 by (simp add: newNode_def)
  with e show ?thesis by auto
qed

text \<open>
  The loop over the variation groups of a record: every group that starts with a record
  whose move parses on the fresh board gets the node of that move appended to the
  current node.
\<close>

lemma buildVariations_first_children:
  assumes "cur < length (nodes g)" "buildVariations cur f vs g = (Inr (), g2)"
  shows "\<exists>ks. extendsAt cur g g2 ks
          \<and> (\<forall>v \<in> set vs. \<forall>nt cm ca ng vs' rest vb mv.
                v = MoveRecord nt cm ca ng vs' # rest \<longrightarrow> newBoard f = Inr vb \<longrightarrow>
                parseMove nt (copy vb) = Inr mv \<longrightarrow>
                (\<exists>k \<in> set ks. nodeMove (nodes g2 ! k) = Some mv))"
  using assms
proof (induction vs arbitrary: g)
  case Nil
  then show ?case using extendsAt_refl by auto
next
  case (Cons v vs)
  show ?case
  proof (cases "v = []")
    case True
    then have "buildVariations cur f vs g = (Inr (), g2)" using Cons.prems(2) by simp
    from Cons.IH [OF Cons.prems(1) this] True show ?thesis by auto
  next
    case False
    obtain vb where vb: "newBoard f = Inr vb"
      using Cons.prems(2) False by (cases "newBoard f") auto
    obtain g1 where g1: "buildLoop cur (copy vb) v g = (Inr (), g1)"
      using Cons.prems(2) False vb
      by (cases "buildLoop cur (copy vb) v g") (auto split: sum.splits)
    have rest: "buildVariations cur f vs g1 = (Inr (), g2)"
      using Cons.prems(2) False vb g1 by simp
    obtain ks1 where e1: "extendsAt cur g g1 ks1"
      using build_extends(1) [of cur g "copy vb" v] g1 Cons.prems(1) by auto
    have c1: "cur < length (nodes g1)" using extendsAt_length [OF e1] Cons.prems(1) by simp
    from Cons.IH [OF c1 rest]
    obtain ks2 where e2: "extendsAt cur g1 g2 ks2"
      and h2: "\<forall>v \<in> set vs. \<forall>nt cm ca ng vs' rest vb mv.
                v = MoveRecord nt cm ca ng vs' # rest \<longrightarrow> newBoard f = Inr vb \<longrightarrow>
                parseMove nt (copy vb) = Inr mv \<longrightarrow>
                (\<exists>k \<in> set ks2. nodeMove (nodes g2 ! k) = Some mv)"
      by blast
    have e: "extendsAt cur g g2 (ks1 @ ks2)" by (rule extendsAt_trans [OF e1 e2 Cons.prems(1)])
    have hv: "\<exists>k \<in> set (ks1 @ ks2). nodeMove (nodes g2 ! k) = Some mv"
      if "v = MoveRecord nt cm ca ng vs' # rest" "newBoard f = Inr vb'" "parseMove nt (copy vb') = Inr mv"
      for nt cm ca ng vs' rest vb' mv
    proof -
      have "vb' = vb" using that(2) vb by simp
      then have p: "parseMove nt (copy vb) = Inr mv" using that(3) by simp
      from buildLoop_first_child [OF Cons.prems(1) p g1 [unfolded that(1)]]
      obtain ks where k: "extendsAt cur g g1 (length (nodes g) # ks)"
        and m: "nodeMove (nodes g1 ! length (nodes g)) = Some mv" by blast
      have "nodes g1 ! cur = (nodes g ! cur)\<lparr>variations := variations (nodes g ! cur) @ ks1\<rparr>"
        using extendsAt_cur [OF e1] .
      moreover have "nodes g1 ! cur = (nodes g ! cur)\<lparr>variations := variations (nodes g ! cur) @ length (nodes g) # ks\<rparr>"
        using extendsAt_cur [OF k] .
      ultimately have "variations (nodes g ! cur) @ ks1 = variations (nodes g ! cur) @ length (nodes g) # ks"
        by (metis GameNode.select_convs(3) GameNode.surjective GameNode.update_convs(3))
      then have a: "length (nodes g) \<in> set (ks1 @ ks2)" by simp
      have "length (nodes g) < length (nodes g1)"
        using extendsAt_new [OF k, of "length (nodes g)"] by simp
      then have "nodes g2 ! length (nodes g) = nodes g1 ! length (nodes g)"
        using extendsAt_other [OF e2, of "length (nodes g)"] Cons.prems(1) by simp
      then have b: "nodeMove (nodes g2 ! length (nodes g)) = Some mv" using m by simp
      from a b show ?thesis by blast
    qed
    have "\<forall>v' \<in> set (v # vs). \<forall>nt cm ca ng vs' rest vb mv.
                v' = MoveRecord nt cm ca ng vs' # rest \<longrightarrow> newBoard f = Inr vb \<longrightarrow>
                parseMove nt (copy vb) = Inr mv \<longrightarrow>
                (\<exists>k \<in> set (ks1 @ ks2). nodeMove (nodes g2 ! k) = Some mv)"
      using hv h2 by (simp) blast
    with e show ?thesis by blast
  qed
qed

lemma example_built: "buildGameTree exampleParseTree = Inr exampleGame"
  by code_simp

text \<open>
  Claim C1. Let the loop of the builder stand at the node \<open>cur\<close> and meet a record \<open>M\<close>
  whose move parses, and let the build return normally. Then the node of \<open>M\<close> (the next
  free position of the store) is appended to the variations of \<open>cur\<close>; everything else
  that this call appends to the variations of \<open>cur\<close> comes after it, has \<open>cur\<close> as its
  parent and is not among the children of the node of \<open>M\<close>; and for every variation group
  of \<open>M\<close> that starts with a record whose move parses on the fresh board (made from the FEN
  before \<open>M\<close>), the node of that move is one of these later children of \<open>cur\<close>.
  In particular the parse tree of \<open>1. e4 e5 (1... c5 2. Nf3) 2. Nf3 *\<close> builds the game
  whose root has the one child \<open>e4\<close> (node 1), which has the two children \<open>e5\<close> (node 2)
  and \<open>c5\<close> (node 3) in this order, and \<open>c5\<close> has the one child \<open>Nf3\<close> (node 4).
\<close>

theorem variation_roots_are_siblings:
  "(cur < length (nodes g) \<longrightarrow> parseMove nt board = Inr mv \<longrightarrow>
      buildLoop cur board (MoveRecord nt cm ca ng vs # ms) g = (Inr (), g') \<longrightarrow>
      (\<exists>ks. variations (nodes g' ! cur) = variations (nodes g ! cur) @ length (nodes g) # ks
          \<and> nodeMove (nodes g' ! length (nodes g)) = Some mv
          \<and> parent (nodes g' ! length (nodes g)) = Some cur
          \<and> (\<forall>k \<in> set ks. parent (nodes g' ! k) = Some cur
                \<and> k \<notin> set (variations (nodes g' ! length (nodes g))))
          \<and> (\<forall>v \<in> set vs. \<forall>nt' cm' ca' ng' vs' rest f vb mv'.
                v = MoveRecord nt' cm' ca' ng' vs' # rest \<longrightarrow> fen board = Inr f \<longrightarrow>
                newBoard f = Inr vb \<longrightarrow> parseMove nt' (copy vb) = Inr mv' \<longrightarrow>
                (\<exists>k \<in> set ks. nodeMove (nodes g' ! k) = Some mv'))))
   \<and> buildGameTree exampleParseTree = Inr exampleGame
   \<and> variations (nodes exampleGame ! 0) = [1]
   \<and> nodeMove (nodes exampleGame ! 1) = Some (mkMove 12 28 None None)
   \<and> variations (nodes exampleGame ! 1) = [2, 3]
   \<and> nodeMove (nodes exampleGame ! 2) = Some (mkMove 52 36 None None)
   \<and> nodeMove (nodes exampleGame ! 3) = Some (mkMove 50 34 None None)
   \<and> variations (nodes exampleGame ! 3) = [4]
   \<and> nodeMove (nodes exampleGame ! 4) = Some (mkMove 6 21 None None)"
proof -
  have general: "\<exists>ks. variations (nodes g' ! cur) = variations (nodes g ! cur) @ length (nodes g) # ks
          \<and> nodeMove (nodes g' ! length (nodes g)) = Some mv
          \<and> parent (nodes g' ! length (nodes g)) = Some cur
          \<and> (\<forall>k \<in> set ks. parent (nodes g' ! k) = Some cur
                \<and> k \<notin> set (variations (nodes g' ! length (nodes g))))
          \<and> (\<forall>v \<in> set vs. \<forall>nt' cm' ca' ng' vs' rest f vb mv'.
                v = MoveRecord nt' cm' ca' ng' vs' # rest \<longrightarrow> fen board = Inr f \<longrightarrow>
                newBoard f = Inr vb \<longrightarrow> parseMove nt' (copy vb) = Inr mv' \<longrightarrow>
                (\<exists>k \<in> set ks. nodeMove (nodes g' ! k) = Some mv'))"
    if c: "cur < length (nodes g)" and p: "parseMove nt board = Inr mv"
      and r: "buildLoop cur board (MoveRecord nt cm ca ng vs # ms) g = (Inr (), g')"
  proof -
    let ?n = "length (nodes g)"
    let ?g1 = "appendChild cur (newNode cur mv cm ca ng) g"
    obtain f where f: "fen board = Inr f"
      using r p by (cases "fen board") (auto simp: Let_def)
    obtain board' where b: "push mv board = (Inr (), board')"
      using r p f by (cases "push mv board") (auto simp: Let_def split: sum.splits)
    obtain g2 where v: "buildVariations cur f vs ?g1 = (Inr (), g2)"
      using r p f b by (cases "buildVariations cur f vs ?g1") (auto simp: Let_def split: sum.splits)
    have rest: "buildLoop ?n board' ms g2 = (Inr (), g')"
      using r p f b v by (simp add: Let_def)
    have e1: "extendsAt cur g ?g1 [?n]"
      using c by (intro extendsAt_appendChild) (simp_all add: newNode_def)
    have l1: "length (nodes ?g1) = Suc ?n" by (simp add: appendChild_def)
    have c1: "cur < length (nodes ?g1)" using c l1 by simp
    have n1: "nodes ?g1 ! ?n = newNode cur mv cm ca ng"
      using c by (simp add: appendChild_def)
    from buildVariations_first_children [OF c1 v]
    obtain ks where e2: "extendsAt cur ?g1 g2 ks"
      and h2: "\<forall>v \<in> set vs. \<forall>nt cm ca ng vs' rest vb mv.
                v = MoveRecord nt cm ca ng vs' # rest \<longrightarrow> newBoard f = Inr vb \<longrightarrow>
                parseMove nt (copy vb) = Inr mv \<longrightarrow>
                (\<exists>k \<in> set ks. nodeMove (nodes g2 ! k) = Some mv)"
      by blast
    have n2: "?n < length (nodes g2)" using extendsAt_length [OF e2] l1 by simp
    obtain ks3 where e3: "extendsAt ?n g2 g' ks3"
      using build_extends(1) [of ?n g2 board' ms] rest n2 by auto
    have ne: "cur \<noteq> ?n" using c by simp
    have cur2: "nodes g2 ! cur = (nodes g ! cur)\<lparr>variations := variations (nodes g ! cur) @ ?n # ks\<rparr>"
      using extendsAt_cur [OF e2] extendsAt_cur [OF e1] by simp
    have "nodes g' ! cur = nodes g2 ! cur"
      using extendsAt_other [OF e3, of cur] c1 extendsAt_length [OF e2] ne by simp
    then have A: "variations (nodes g' ! cur) = variations (nodes g ! cur) @ ?n # ks"
      using cur2 by simp
    have "nodes g2 ! ?n = nodes ?g1 ! ?n"
      using extendsAt_other [OF e2, of ?n] ne l1 by simp
    then have M: "nodes g' ! ?n = (newNode cur mv cm ca ng)\<lparr>variations := ks3\<rparr>"
      using extendsAt_cur [OF e3] n1 by (simp add: newNode_def)
    have B: "nodeMove (nodes g' ! ?n) = Some mv" "parent (nodes g' ! ?n) = Some cur"
      "variations (nodes g' ! ?n) = ks3"
      using M by (simp_all add: newNode_def)
    have K: "nodes g' ! k = nodes g2 ! k \<and> parent (nodes g2 ! k) = Some cur \<and> k \<notin> set ks3"
      if "k \<in> set ks" for k
    proof -
      from extendsAt_new [OF e2 that]
      have k: "length (nodes ?g1) \<le> k" "k < length (nodes g2)" "parent (nodes g2 ! k) = Some cur"
        by simp_all
      have "k \<noteq> ?n" using k(1) l1 by simp
      then have "nodes g' ! k = nodes g2 ! k" using extendsAt_other [OF e3 k(2)] by simp
      moreover have "k \<notin> set ks3" using extendsAt_new [OF e3, of k] k(2) by auto
      ultimately show ?thesis using k(3) by simp
    qed
    have C: "\<forall>k \<in> set ks. parent (nodes g' ! k) = Some cur \<and> k \<notin> set (variations (nodes g' ! ?n))"
      using K B(3) by simp
    have D: "\<exists>k \<in> set ks. nodeMove (nodes g' ! k) = Some mv'"
      if "v \<in> set vs" "v = MoveRecord nt' cm' ca' ng' vs' # rest" "fen board = Inr f'"
        "newBoard f' = Inr vb" "parseMove nt' (copy vb) = Inr mv'"
      for v nt' cm' ca' ng' vs' rest f' vb mv'
    proof -
      have "f' = f" using that(3) f by simp
      with h2 that obtain k where "k \<in> set ks" "nodeMove (nodes g2 ! k) = Some mv'" by blast
      then show ?thesis using K by auto
    qed
    from A B(1,2) C D show ?thesis by blast
  qed
  have shape: "variations (nodes exampleGame ! 0) = [1]"
    "nodeMove (nodes exampleGame ! 1) = Some (mkMove 12 28 None None)"
    "variations (nodes exampleGame ! 1) = [2, 3]"
    "nodeMove (nodes exampleGame ! 2) = Some (mkMove 52 36 None None)"
    "nodeMove (nodes exampleGame ! 3) = Some (mkMove 50 34 None None)"
    "variations (nodes exampleGame ! 3) = [4]"
    "nodeMove (nodes exampleGame ! 4) = Some (mkMove 6 21 None None)"
    by (simp_all add: exampleGame_def moveNode_def)
  from general example_built shape show ?thesis by blast
qed

lemma example_step_parse: "parseMove notationE5 boardAfterE4 = Inr (mkMove 52 36 None None)"
  by code_simp

lemma example_step_build:
  "buildLoop 1 boardAfterE4 (MoveRecord notationE5 None None [] [variationC5] # movesAfterE5) storeAfterE4
     = (Inr (), exampleGame)"
  by code_simp

theorem variation_roots_are_siblings_witness:
  "1 < length (nodes storeAfterE4)
   \<and> parseMove notationE5 boardAfterE4 = Inr (mkMove 52 36 None None)
   \<and> buildLoop 1 boardAfterE4 (MoveRecord notationE5 None None [] [variationC5] # movesAfterE5) storeAfterE4
       = (Inr (), exampleGame)
   \<and> (\<exists>ks. variations (nodes exampleGame ! 1) = variations (nodes storeAfterE4 ! 1) @ 2 # ks
          \<and> nodeMove (nodes exampleGame ! 2) = Some (mkMove 52 36 None None)
          \<and> parent (nodes exampleGame ! 2) = Some 1
          \<and> list_all (\<lambda>k. parent (nodes exampleGame ! k) = Some 1
                \<and> k \<notin> set (variations (nodes exampleGame ! 2))) ks)"
proof -
  have l: "1 < length (nodes storeAfterE4)" "length (nodes storeAfterE4) = 2"
    by (simp_all add: storeAfterE4_def)
  from variation_roots_are_siblings [THEN conjunct1, rule_format,
      of 1 storeAfterE4 notationE5 boardAfterE4 "mkMove 52 36 None None" None None "[]"
         "[variationC5]" movesAfterE5 exampleGame,
      OF l(1) example_step_parse example_step_build]
  obtain ks where "variations (nodes exampleGame ! 1) = variations (nodes storeAfterE4 ! 1) @ 2 # ks"
    "nodeMove (nodes exampleGame ! 2) = Some (mkMove 52 36 None None)"
    "parent (nodes exampleGame ! 2) = Some 1"
    "\<forall>k \<in> set ks. parent (nodes exampleGame ! k) = Some 1 \<and> k \<notin> set (variations (nodes exampleGame ! 2))"
    unfolding l(2) by blast
  then show ?thesis using l(1) example_step_parse example_step_build
    unfolding list_all_iff by blast
qed

text \<open>
  Claim C6. When the move of a record does not parse, the \<open>catch\<close> branch runs: one
  \<open>GameError\<close> with the message, the SAN of the record and the FEN of the current board
  is appended to the error list, and the loop goes on with the rest of the list, at the
  same node and on the same board (the variations of the record are dropped). So a list
  in which no move parses is worked through to its end, with one error for each record
  and no node added.
\<close>

theorem parse_failure_is_recorded:
  "(parseMove nt board = Inl e \<longrightarrow> fen board = Inr f \<longrightarrow>
      buildLoop cur board (MoveRecord nt cm ca ng vs # ms) g
        = buildLoop cur board ms
            (g\<lparr>errors := errors g @
                 [\<lparr>message = ''Failed to parse move: '' @ (case nt of None \<Rightarrow> ''unknown'' | Some n \<Rightarrow> n_notation n),
                   errSan = map_option n_notation nt, errFen = f\<rparr>]\<rparr>))
   \<and> (fen board = Inr f \<longrightarrow> list_all (cannotParse board) ms' \<longrightarrow>
        buildLoop cur board ms' g
          = (Inr (), g\<lparr>errors := errors g @ concat (map (recordError f) ms')\<rparr>))"
proof -
  have "buildLoop cur board ms' g
          = (Inr (), g\<lparr>errors := errors g @ concat (map (recordError f) ms')\<rparr>)"
    if f: "fen board = Inr f" and a: "list_all (cannotParse board) ms'"
    using a
  proof (induction ms' arbitrary: g)
    case Nil
    then show ?case by simp
  next
    case (Cons m ms')
    show ?case
    proof (cases m)
      case (ResultString s)
      then show ?thesis using Cons.IH Cons.prems by simp
    next
      case (MoveRecord nt cm ca ng vs)
      then obtain e where "parseMove nt board = Inl e"
        using Cons.prems by (auto simp: isl_def)
      then show ?thesis using MoveRecord f Cons.IH Cons.prems by simp
    qed
  qed
  then show ?thesis by (auto simp: parseError_def)
qed

lemma error_example_parse:
  "parseMove notationE5 (copy startPosition) = Inl (Error ''Could not find legal move for: e5'')"
  by code_simp

lemma error_example_fen:
  "fen (copy startPosition) = Inr ''rnbqkbnr/pppppppp/8/8/8/8/PPPPPPPP/RNBQKBNR w KQkq - 0 1''"
  by code_simp

lemma error_example_rest:
  "buildLoop 0 (copy startPosition) [sanRecord ''e4'' None ''e'' ''4'' []]
     (newGame\<lparr>errors := errors newGame @
        [\<lparr>message = ''Failed to parse move: '' @ (case notationE5 of None \<Rightarrow> ''unknown'' | Some n \<Rightarrow> n_notation n),
          errSan = map_option n_notation notationE5,
          errFen = ''rnbqkbnr/pppppppp/8/8/8/8/PPPPPPPP/RNBQKBNR w KQkq - 0 1''\<rparr>]\<rparr>)
   = (Inr (), gameWithError)"
  by code_simp

theorem parse_failure_is_recorded_witness:
  "parseMove notationE5 (copy startPosition) = Inl (Error ''Could not find legal move for: e5'')
   \<and> fen (copy startPosition) = Inr ''rnbqkbnr/pppppppp/8/8/8/8/PPPPPPPP/RNBQKBNR w KQkq - 0 1''
   \<and> buildLoop 0 (copy startPosition)
        (MoveRecord notationE5 None None [] [variationC5] # [sanRecord ''e4'' None ''e'' ''4'' []]) newGame
       = (Inr (), gameWithError)
   \<and> length (nodes gameWithError) = 2
   \<and> map message (errors gameWithError) = [''Failed to parse move: e5'']"
proof -
  from parse_failure_is_recorded [THEN conjunct1, rule_format, OF error_example_parse error_example_fen,
      of 0 None None "[]" "[variationC5]" "[sanRecord ''e4'' None ''e'' ''4'' []]" newGame]
  have "buildLoop 0 (copy startPosition)
        (MoveRecord notationE5 None None [] [variationC5] # [sanRecord ''e4'' None ''e'' ''4'' []]) newGame
       = (Inr (), gameWithError)"
    unfolding error_example_rest .
  then show ?thesis
    using error_example_parse error_example_fen by (simp add: gameWithError_def)
qed

section \<open>Properties of SAN parsing and rendering\<close>

lemma twoKnights_fen: "newBoard ''4k3/8/8/8/8/8/8/1N2KN2 w - - 0 1'' = Inr twoKnights"
  by code_simp

lemma twoKings_fen: "newBoard ''8/8/8/8/8/8/7K/4K2R w K - 0 1'' = Inr twoKings"
  by code_simp

lemma find_first_match:
  "find P xs = (if list_ex P xs then Some (hd (filter P xs)) else None)"
  by (induction xs) auto

text \<open>
  Claim C3, as the code has it. After the trailing marks and the white space are removed:
  a castling string gives the two-square king move of the side to move, and \<open>--\<close> or
  \<open>Z0\<close> the null move, in both cases without a look at the legal moves. Any other string
  throws \<open>Invalid SAN\<close> when its destination cannot be read, throws \<open>Illegal move\<close> when
  no legal move meets the piece type, destination, promotion and disambiguation read from
  it, and otherwise returns the first legal move that meets them, whether or not another
  one does too.
\<close>

theorem parseSan_result:
  "(trim (stripSuffixMarks str) \<in> {''O-O'', ''0-0''} \<longrightarrow>
      parseSan str b =
        Inr (mkMove (if turn b = WHITE then E1 else E8) (if turn b = WHITE then G1 else G8) None None))
   \<and> (trim (stripSuffixMarks str) \<in> {''O-O-O'', ''0-0-0''} \<longrightarrow>
      parseSan str b =
        Inr (mkMove (if turn b = WHITE then E1 else E8) (if turn b = WHITE then C1 else C8) None None))
   \<and> (trim (stripSuffixMarks str) \<in> {''--'', ''Z0''} \<longrightarrow> parseSan str b = Inr Move_null)
   \<and> (trim (stripSuffixMarks str) \<notin> {''O-O'', ''0-0'', ''O-O-O'', ''0-0-0'', ''--'', ''Z0''} \<longrightarrow>
        (sanConstraints (trim (stripSuffixMarks str)) = None \<longrightarrow>
           parseSan str b = Inl (Error (''Invalid SAN: '' @ str)))
        \<and> (\<forall>pt toSq prom df dr.
             sanConstraints (trim (stripSuffixMarks str)) = Some (pt, toSq, prom, df, dr) \<longrightarrow>
               (\<not> list_ex (sanMatches b pt toSq prom df dr) (legalMoves b) \<longrightarrow>
                  parseSan str b = Inl (Error (''Illegal move: '' @ str)))
               \<and> (list_ex (sanMatches b pt toSq prom df dr) (legalMoves b) \<longrightarrow>
                    parseSan str b = Inr (hd (filter (sanMatches b pt toSq prom df dr) (legalMoves b)))
                    \<and> hd (filter (sanMatches b pt toSq prom df dr) (legalMoves b)) \<in> set (legalMoves b)
                    \<and> sanMatches b pt toSq prom df dr
                         (hd (filter (sanMatches b pt toSq prom df dr) (legalMoves b))))))"
proof -
  have hd_in: "hd (filter P xs) \<in> set xs \<and> P (hd (filter P xs))" if "list_ex P xs" for P and xs :: "Move list"
  proof -
    from that have "filter P xs \<noteq> []" by (simp add: list_ex_iff filter_empty_conv)
    then have "hd (filter P xs) \<in> set (filter P xs)" by (rule hd_in_set)
    then show ?thesis by simp
  qed
  show ?thesis
    by (auto simp: parseSan_def Let_def find_first_match hd_in)
qed

lemma parseSan_e4_constraints:
  "trim (stripSuffixMarks ''e4+'') = ''e4''
   \<and> sanConstraints ''e4'' = Some (PAWN, 28, None, None, None)"
  by code_simp

lemma parseSan_e4_match:
  "list_ex (sanMatches startPosition PAWN 28 None None None) (legalMoves startPosition)
   \<and> hd (filter (sanMatches startPosition PAWN 28 None None None) (legalMoves startPosition))
       = mkMove 12 28 None None"
  by code_simp

theorem parseSan_result_witness:
  "trim (stripSuffixMarks ''e4+'') \<notin> {''O-O'', ''0-0'', ''O-O-O'', ''0-0-0'', ''--'', ''Z0''}
   \<and> sanConstraints (trim (stripSuffixMarks ''e4+'')) = Some (PAWN, 28, None, None, None)
   \<and> list_ex (sanMatches startPosition PAWN 28 None None None) (legalMoves startPosition)
   \<and> parseSan ''e4+'' startPosition = Inr (mkMove 12 28 None None)
   \<and> mkMove 12 28 None None \<in> set (legalMoves startPosition)"
proof -
  have n: "trim (stripSuffixMarks ''e4+'') \<notin> {''O-O'', ''0-0'', ''O-O-O'', ''0-0-0'', ''--'', ''Z0''}"
    using parseSan_e4_constraints by simp
  have c: "sanConstraints (trim (stripSuffixMarks ''e4+'')) = Some (PAWN, 28, None, None, None)"
    using parseSan_e4_constraints by simp
  from parseSan_result [of "''e4+''" startPosition, THEN conjunct2, THEN conjunct2, THEN conjunct2,
      rule_format, OF n, THEN conjunct2, rule_format, OF c, THEN conjunct2, rule_format]
    parseSan_e4_match n c
  show ?thesis by simp
qed

text \<open>
  Claim C3 as stated fails twice. In the starting position \<open>O-O\<close> is answered with the
  move e1g1, which is not a legal move there. With white knights on b1 and f1 the string
  \<open>Nd2\<close> fits two legal moves, and the call returns the first of them instead of failing.
\<close>

theorem parseSan_counterexample:
  "parseSan ''O-O'' startPosition = Inr (mkMove 4 6 None None)
   \<and> mkMove 4 6 None None \<notin> set (legalMoves startPosition)
   \<and> sanConstraints ''Nd2'' = Some (KNIGHT, 11, None, None, None)
   \<and> filter (sanMatches twoKnights KNIGHT 11 None None None) (legalMoves twoKnights)
       = [mkMove 1 11 None None, mkMove 5 11 None None]
   \<and> parseSan ''Nd2'' twoKnights = Inr (mkMove 1 11 None None)"
  by code_simp

lemma threeQueens_fen: "newBoard ''1k6/8/8/8/4Q2Q/8/8/K6Q w - - 0 1'' = Inr threeQueens"
  by code_simp

text \<open>
  Claim C5, as the code has it. For a move of a piece other than a pawn that is not
  rendered as castling (a king moving two files), \<open>san\<close> is the piece letter, the
  disambiguation and the rest. The conflicting moves are the legal moves to the same
  destination from another origin square whose moving piece has the same type. If one of
  them shares the origin file, the rank digit is included, at the end of the
  disambiguation; otherwise, if there is any (on the same rank or not), the disambiguation
  is the file letter; without a conflicting move it is empty. Exactly: the file letter is
  included when some conflicting move starts on another file, and the rank digit when some
  conflicting move starts on the same file, so both can be present.
\<close>

theorem san_disambiguation_rule:
  "aget (pieces b) (fromSquare m) = Occupied piece \<longrightarrow> pieceType piece \<noteq> PAWN \<longrightarrow>
   \<not> (pieceType piece = KING \<and> \<bar>squareFile (toSquare m) - squareFile (fromSquare m)\<bar> = 2) \<longrightarrow>
     san m b = Inr (sanPieceLetter piece @ sanDisambiguation b m piece @ sanRest b m piece)
     \<and> (\<forall>other. other \<in> set (sanConflicts b m piece) \<longleftrightarrow>
            other \<in> set (legalMoves b) \<and> toSquare other = toSquare m
            \<and> fromSquare other \<noteq> fromSquare m
            \<and> hasType (aget (pieces b) (fromSquare other)) (pieceType piece))
     \<and> ((\<exists>other \<in> set (sanConflicts b m piece). squareFile (fromSquare other) = squareFile (fromSquare m)) \<longrightarrow>
           (\<exists>d. sanDisambiguation b m piece = d @ toString (squareRank (fromSquare m) + 1)))
     \<and> (\<not> (\<exists>other \<in> set (sanConflicts b m piece). squareFile (fromSquare other) = squareFile (fromSquare m)) \<longrightarrow>
           ((\<exists>other \<in> set (sanConflicts b m piece). squareRank (fromSquare other) = squareRank (fromSquare m)) \<longrightarrow>
              sanDisambiguation b m piece = tmpl (js_nth FILE_NAMES (squareFile (fromSquare m))))
           \<and> (sanConflicts b m piece \<noteq> [] \<longrightarrow>
              sanDisambiguation b m piece = tmpl (js_nth FILE_NAMES (squareFile (fromSquare m)))))
     \<and> (sanConflicts b m piece = [] \<longrightarrow> sanDisambiguation b m piece = [])
     \<and> sanDisambiguation b m piece =
          (if \<exists>other \<in> set (sanConflicts b m piece). squareFile (fromSquare other) \<noteq> squareFile (fromSquare m)
           then tmpl (js_nth FILE_NAMES (squareFile (fromSquare m))) else [])
          @ (if \<exists>other \<in> set (sanConflicts b m piece). squareFile (fromSquare other) = squareFile (fromSquare m)
             then toString (squareRank (fromSquare m) + 1) else [])"
proof (intro impI)
  assume p: "aget (pieces b) (fromSquare m) = Occupied piece" and np: "pieceType piece \<noteq> PAWN"
    and nc: "\<not> (pieceType piece = KING \<and> \<bar>squareFile (toSquare m) - squareFile (fromSquare m)\<bar> = 2)"
  let ?cs = "sanConflicts b m piece"
  let ?file = "tmpl (js_nth FILE_NAMES (squareFile (fromSquare m)))"
  let ?rank = "toString (squareRank (fromSquare m) + 1)"
  have s: "san m b = Inr (sanPieceLetter piece @ sanDisambiguation b m piece @ sanRest b m piece)"
    using p nc by (auto simp: san_def)
  have mem: "\<forall>other. other \<in> set ?cs \<longleftrightarrow>
            other \<in> set (legalMoves b) \<and> toSquare other = toSquare m
            \<and> fromSquare other \<noteq> fromSquare m
            \<and> hasType (aget (pieces b) (fromSquare other)) (pieceType piece)"
    by (auto simp: sanConflicts_def)
  have d: "sanDisambiguation b m piece =
          (if \<exists>other \<in> set ?cs. squareFile (fromSquare other) \<noteq> squareFile (fromSquare m) then ?file else [])
          @ (if \<exists>other \<in> set ?cs. squareFile (fromSquare other) = squareFile (fromSquare m) then ?rank else [])"
    using np by (simp add: sanDisambiguation_def sanNeedFile_def sanNeedRank_def list_ex_iff)
  have r1: "(\<exists>other \<in> set ?cs. squareFile (fromSquare other) = squareFile (fromSquare m)) \<longrightarrow>
           (\<exists>d. sanDisambiguation b m piece = d @ ?rank)"
    unfolding d by auto
  have r2: "\<not> (\<exists>other \<in> set ?cs. squareFile (fromSquare other) = squareFile (fromSquare m)) \<longrightarrow>
           ((\<exists>other \<in> set ?cs. squareRank (fromSquare other) = squareRank (fromSquare m)) \<longrightarrow>
              sanDisambiguation b m piece = ?file)
           \<and> (?cs \<noteq> [] \<longrightarrow> sanDisambiguation b m piece = ?file)"
  proof (intro impI conjI)
    assume n: "\<not> (\<exists>other \<in> set ?cs. squareFile (fromSquare other) = squareFile (fromSquare m))"
    {
      assume "?cs \<noteq> []"
      then obtain o1 where "o1 \<in> set ?cs" by (cases ?cs) auto
      then have "\<exists>other \<in> set ?cs. squareFile (fromSquare other) \<noteq> squareFile (fromSquare m)"
        using n by blast
      then show "sanDisambiguation b m piece = ?file" unfolding d using n by simp
    }
    then show "sanDisambiguation b m piece = ?file"
      if "\<exists>other \<in> set ?cs. squareRank (fromSquare other) = squareRank (fromSquare m)"
      using that by fastforce
  qed
  have r3: "?cs = [] \<longrightarrow> sanDisambiguation b m piece = []"
    unfolding d by simp
  from s mem r1 r2 r3 d
  show "san m b = Inr (sanPieceLetter piece @ sanDisambiguation b m piece @ sanRest b m piece)
     \<and> (\<forall>other. other \<in> set ?cs \<longleftrightarrow>
            other \<in> set (legalMoves b) \<and> toSquare other = toSquare m
            \<and> fromSquare other \<noteq> fromSquare m
            \<and> hasType (aget (pieces b) (fromSquare other)) (pieceType piece))
     \<and> ((\<exists>other \<in> set ?cs. squareFile (fromSquare other) = squareFile (fromSquare m)) \<longrightarrow>
           (\<exists>d. sanDisambiguation b m piece = d @ ?rank))
     \<and> (\<not> (\<exists>other \<in> set ?cs. squareFile (fromSquare other) = squareFile (fromSquare m)) \<longrightarrow>
           ((\<exists>other \<in> set ?cs. squareRank (fromSquare other) = squareRank (fromSquare m)) \<longrightarrow>
              sanDisambiguation b m piece = ?file)
           \<and> (?cs \<noteq> [] \<longrightarrow> sanDisambiguation b m piece = ?file))
     \<and> (?cs = [] \<longrightarrow> sanDisambiguation b m piece = [])
     \<and> sanDisambiguation b m piece =
          (if \<exists>other \<in> set ?cs. squareFile (fromSquare other) \<noteq> squareFile (fromSquare m) then ?file else [])
          @ (if \<exists>other \<in> set ?cs. squareFile (fromSquare other) = squareFile (fromSquare m) then ?rank else [])"
    by blast
qed

lemma san_example_knights:
  "aget (pieces twoKnights) (fromSquare (mkMove 1 11 None None)) = Occupied (mkPiece KNIGHT WHITE)
   \<and> sanConflicts twoKnights (mkMove 1 11 None None) (mkPiece KNIGHT WHITE) = [mkMove 5 11 None None]
   \<and> san (mkMove 1 11 None None) twoKnights = Inr ''Nbd2''
   \<and> sanDisambiguation twoKnights (mkMove 1 11 None None) (mkPiece KNIGHT WHITE) = ''b''"
  by code_simp

theorem san_disambiguation_rule_witness:
  "aget (pieces twoKnights) (fromSquare (mkMove 1 11 None None)) = Occupied (mkPiece KNIGHT WHITE)
   \<and> pieceType (mkPiece KNIGHT WHITE) \<noteq> PAWN
   \<and> sanConflicts twoKnights (mkMove 1 11 None None) (mkPiece KNIGHT WHITE) = [mkMove 5 11 None None]
   \<and> squareFile (fromSquare (mkMove 5 11 None None)) \<noteq> squareFile (fromSquare (mkMove 1 11 None None))
   \<and> sanDisambiguation twoKnights (mkMove 1 11 None None) (mkPiece KNIGHT WHITE)
        = tmpl (js_nth FILE_NAMES (squareFile (fromSquare (mkMove 1 11 None None))))
   \<and> san (mkMove 1 11 None None) twoKnights = Inr ''Nbd2''"
proof -
  have p: "aget (pieces twoKnights) (fromSquare (mkMove 1 11 None None)) = Occupied (mkPiece KNIGHT WHITE)"
    using san_example_knights by blast
  have t: "pieceType (mkPiece KNIGHT WHITE) \<noteq> PAWN"
    "\<not> (pieceType (mkPiece KNIGHT WHITE) = KING
        \<and> \<bar>squareFile (toSquare (mkMove 1 11 None None)) - squareFile (fromSquare (mkMove 1 11 None None))\<bar> = 2)"
    by (simp_all add: mkPiece_def)
  have c: "sanConflicts twoKnights (mkMove 1 11 None None) (mkPiece KNIGHT WHITE) = [mkMove 5 11 None None]"
    using san_example_knights by blast
  have f: "squareFile (fromSquare (mkMove 5 11 None None)) \<noteq> squareFile (fromSquare (mkMove 1 11 None None))"
    by (simp add: mkMove_def squareFile_def)
  from san_disambiguation_rule [rule_format, OF p t]
  have "sanDisambiguation twoKnights (mkMove 1 11 None None) (mkPiece KNIGHT WHITE)
        = tmpl (js_nth FILE_NAMES (squareFile (fromSquare (mkMove 1 11 None None))))"
    using c f by simp
  with p t(1) c f san_example_knights show ?thesis by blast
qed

text \<open>
  Claim C5 as stated fails for a move rendered as castling. With white kings on e1 and
  h2 and the right to castle short, e1g1 is legal, the other king can move to g1 as well
  (a legal move of the same piece type to the same destination, from another file), and
  \<open>san\<close> answers \<open>O-O\<close>, with no file letter.
\<close>

theorem san_disambiguation_counterexample:
  "mkMove 4 6 None None \<in> set (legalMoves twoKings)
   \<and> aget (pieces twoKings) 4 = Occupied (mkPiece KING WHITE)
   \<and> sanConflicts twoKings (mkMove 4 6 None None) (mkPiece KING WHITE) = [mkMove 15 6 None None]
   \<and> squareFile 15 \<noteq> squareFile 4
   \<and> san (mkMove 4 6 None None) twoKings = Inr ''O-O''
   \<and> san (mkMove 15 6 None None) twoKings = Inr ''Khg1''"
  by code_simp

text \<open>
  Both parts at once: of the three queens that can go to e1, the one on h4 shares its file
  with the one on h1 and not with the one on e4.
\<close>

lemma san_file_and_rank: "san (mkMove 31 4 None None) threeQueens = Inr ''Qh4e1''"
  by code_simp

section \<open>Properties of FEN output and input\<close>

subsection \<open>Splitting a joined string\<close>

lemma isSpace_blank: "isSpace (CHR '' '')"
  by (simp add: isSpace_def charCode_def)

lemma splitSpaces_word: "\<forall>c\<in>set x. \<not> isSpace c \<Longrightarrow> splitSpaces x = [x]"
  by (induction x) auto

lemma splitSpaces_step:
  assumes "\<forall>c\<in>set x. \<not> isSpace c" "r \<noteq> []" "\<not> isSpace (hd r)"
  shows "splitSpaces (x @ CHR '' '' # r) = x # splitSpaces r"
  using assms
proof (induction x)
  case Nil
  from Nil(2,3) have "dropWhile isSpace r = r" by (cases r) auto
  then show ?case by (simp add: isSpace_blank)
next
  case (Cons c x)
  then show ?case by simp
qed

lemma splitOn_word: "d \<notin> set x \<Longrightarrow> splitOn d x = [x]"
  by (induction x) auto

lemma splitOn_step: "d \<notin> set x \<Longrightarrow> splitOn d (x @ d # r) = x # splitOn d r"
  by (induction x) auto

lemma splitOn_join:
  "xs \<noteq> [] \<Longrightarrow> \<forall>x\<in>set xs. d \<notin> set x \<Longrightarrow> splitOn d (join [d] xs) = xs"
proof (induction "[d]" xs rule: join.induct)
  case 1
  then show ?case by simp
next
  case (2 x)
  then show ?case by (simp add: splitOn_word)
next
  case (3 x y ys)
  then show ?case by (simp add: splitOn_step)
qed

subsection \<open>Printing and reading a whole number\<close>

lemma charCode_char_of: "k < 256 \<Longrightarrow> charCode (char_of (k::nat)) = int k"
proof -
  assume k: "k < 256"
  have "(of_char (char_of k) :: int) = int (of_char (char_of k))"
    by (simp only: of_nat_of_char)
  also have "\<dots> = int (k mod 256)" by (simp only: of_char_of)
  finally show ?thesis using k by (simp add: charCode_def)
qed

lemma charCode_digitChar: "d < 10 \<Longrightarrow> charCode (digitChar d) = 48 + int d"
  by (simp add: digitChar_def charCode_char_of)

lemma isDigit_digitChar: "d < 10 \<Longrightarrow> isDigit (digitChar d)"
  by (simp add: isDigit_def charCode_digitChar) (simp add: charCode_def)

lemma decimalValue_snoc:
  "decimalValue (ds @ [c]) = decimalValue ds * 10 + nat (charCode c - 48)"
  by (simp add: decimalValue_def)

lemma digitsOf_props:
  "digitsOf n \<noteq> [] \<and> (\<forall>c\<in>set (digitsOf n). isDigit c) \<and> decimalValue (digitsOf n) = n"
proof (induction n rule: digitsOf.induct)
  case (1 n)
  show ?case
  proof (cases "n < 10")
    case True
    then have "digitsOf n = [digitChar n]" by (subst digitsOf.simps) simp
    with True show ?thesis
      by (simp add: isDigit_digitChar decimalValue_def charCode_digitChar)
  next
    case False
    then have d: "digitsOf n = digitsOf (n div 10) @ [digitChar (n mod 10)]"
      by (subst digitsOf.simps) simp
    from 1 False have ih: "digitsOf (n div 10) \<noteq> []" "\<forall>c\<in>set (digitsOf (n div 10)). isDigit c"
      "decimalValue (digitsOf (n div 10)) = n div 10" by auto
    have m: "n mod 10 < 10" by simp
    show ?thesis
      unfolding d using ih m
      by (simp add: decimalValue_snoc isDigit_digitChar charCode_digitChar del: digitsOf.simps)
  qed
qed

lemma isDigit_not_space: "isDigit c \<Longrightarrow> \<not> isSpace c"
  by (auto simp: isDigit_def isSpace_def charCode_def)

lemma isDigit_not_x: "isDigit c \<Longrightarrow> c \<noteq> CHR ''x'' \<and> c \<noteq> CHR ''X'' \<and> c \<noteq> CHR ''-'' \<and> c \<noteq> CHR ''+''"
  by (auto simp: isDigit_def charCode_def)

lemma parseInt_digits:
  assumes "ds \<noteq> []" "\<forall>c\<in>set ds. isDigit c"
  shows "parseInt ds = Some (int (decimalValue ds))"
    and "parseInt (CHR ''-'' # ds) = Some (- int (decimalValue ds))"
proof -
  obtain c cs where ds: "ds = c # cs" using assms(1) by (cases ds) auto
  have c: "isDigit c" using assms(2) ds by simp
  have ns: "\<not> isSpace c" using c by (rule isDigit_not_space)
  have nx: "c \<noteq> CHR ''-''" "c \<noteq> CHR ''+''" using isDigit_not_x [OF c] by auto
  have t: "takeWhile isDigit ds = ds" using assms(2) by (simp add: takeWhile_eq_all_conv)
  have h: "take 2 ds \<noteq> ''0x''" "take 2 ds \<noteq> ''0X''"
  proof -
    show "take 2 ds \<noteq> ''0x''"
    proof
      assume "take 2 ds = ''0x''"
      then have "CHR ''x'' \<in> set (take 2 ds)" by simp
      then have "CHR ''x'' \<in> set ds" by (rule in_set_takeD)
      then show False using assms(2) isDigit_not_x by blast
    qed
    show "take 2 ds \<noteq> ''0X''"
    proof
      assume "take 2 ds = ''0X''"
      then have "CHR ''X'' \<in> set (take 2 ds)" by simp
      then have "CHR ''X'' \<in> set ds" by (rule in_set_takeD)
      then show False using assms(2) isDigit_not_x by blast
    qed
  qed
  have dw: "dropWhile isSpace ds = ds" using ns ds by simp
  have hd: "hd ds \<noteq> CHR ''-''" "hd ds \<noteq> CHR ''+''" using nx ds by simp_all
  show "parseInt ds = Some (int (decimalValue ds))"
    unfolding parseInt_def Let_def dw using hd h assms(1) by (simp add: t)
  have ms: "dropWhile isSpace (CHR ''-'' # ds) = CHR ''-'' # ds"
    by (simp add: isSpace_def charCode_def)
  show "parseInt (CHR ''-'' # ds) = Some (- int (decimalValue ds))"
    unfolding parseInt_def Let_def ms using h assms(1) by (simp add: t)
qed

lemma parseInt_toString: "parseInt (toString n) = Some n"
proof (cases "n < 0")
  case True
  then show ?thesis
    using parseInt_digits(2) [of "digitsOf (nat (- n))"] digitsOf_props [of "nat (- n)"]
    by (simp add: toString_def del: digitsOf.simps)
next
  case False
  then show ?thesis
    using parseInt_digits(1) [of "digitsOf (nat n)"] digitsOf_props [of "nat n"]
    by (simp add: toString_def del: digitsOf.simps)
qed

lemma toString_word: "toString n \<noteq> [] \<and> (\<forall>c\<in>set (toString n). \<not> isSpace c)"
  using digitsOf_props [of "nat n"] digitsOf_props [of "nat (- n)"] isDigit_not_space
  by (auto simp: toString_def isSpace_def charCode_def simp del: digitsOf.simps)

lemma toString_digit:
  assumes "1 \<le> n" "n \<le> 8"
  shows "toString n = [digitChar (nat n)] \<and> charCode (digitChar (nat n)) = 48 + n"
proof -
  have "nat n < 10" using assms by simp
  moreover have "digitsOf (nat n) = [digitChar (nat n)]"
    using \<open>nat n < 10\<close> by (subst digitsOf.simps) simp
  ultimately show ?thesis using assms by (simp add: toString_def charCode_digitChar del: digitsOf.simps)
qed

subsection \<open>One row of the piece placement\<close>

lemma symbols_all:
  "list_all (\<lambda>t. list_all (\<lambda>col.
      let p = mkPiece (int t) col; s = projr (symbol p)
      in \<not> isl (symbol p) \<and> length s = 1 \<and> fromSymbol s = Inr p
         \<and> \<not> (charCode (CHR ''1'') \<le> charCode (hd s) \<and> charCode (hd s) \<le> charCode (CHR ''8''))
         \<and> hd s \<noteq> CHR ''/'' \<and> \<not> isSpace (hd s)) [True, False]) [1..<7]"
  by code_simp

lemma symbol_roundtrip:
  assumes "1 \<le> pieceType p" "pieceType p \<le> 6"
  obtains c where "symbol p = Inr [c]" "fromSymbol [c] = Inr p"
    "\<not> (charCode (CHR ''1'') \<le> charCode c \<and> charCode c \<le> charCode (CHR ''8''))"
    "c \<noteq> CHR ''/''" "\<not> isSpace c"
proof -
  have t: "nat (pieceType p) \<in> set [1..<7]" using assms by auto
  have c: "color p \<in> set [True, False]" by auto
  have p: "mkPiece (int (nat (pieceType p))) (color p) = p" using assms by (simp add: mkPiece_def)
  define s where "s = projr (symbol p)"
  from symbols_all t c p
  have f: "\<not> isl (symbol p) \<and> length s = 1 \<and> fromSymbol s = Inr p
         \<and> \<not> (charCode (CHR ''1'') \<le> charCode (hd s) \<and> charCode (hd s) \<le> charCode (CHR ''8''))
         \<and> hd s \<noteq> CHR ''/'' \<and> \<not> isSpace (hd s)"
    unfolding list_all_iff Let_def s_def by metis
  then have "s = [hd s]" by (cases s) auto
  moreover have "symbol p = Inr s" using f by (cases "symbol p") (auto simp: s_def)
  ultimately show ?thesis using that [of "hd s"] f by metis
qed

lemma digit_not_separator:
  "charCode (CHR ''1'') \<le> charCode c \<Longrightarrow> charCode c \<le> charCode (CHR ''8'')
   \<Longrightarrow> \<not> isSpace c \<and> c \<noteq> CHR ''/''"
  by (auto simp: isSpace_def charCode_def)

lemma square_of_file_rank:
  assumes "0 \<le> rank" "k < 8"
  shows "(int i div 8 = rank \<and> i mod 8 = k) \<longleftrightarrow> i = nat (rank * 8 + int k)"
proof
  assume a: "int i div 8 = rank \<and> i mod 8 = k"
  have "int i = int i div 8 * 8 + int i mod 8" by simp
  also have "int i mod 8 = int (i mod 8)" by (simp add: zmod_int)
  finally have "int i = rank * 8 + int k" using a by simp
  then show "i = nat (rank * 8 + int k)" by simp
next
  assume b: "i = nat (rank * 8 + int k)"
  then have i: "int i = rank * 8 + int k" using assms by simp
  have "int i div 8 = rank" unfolding i using assms by simp
  moreover have "int i mod 8 = int k" unfolding i using assms by simp
  then have "int (i mod 8) = int k" by (simp add: zmod_int)
  ultimately show "int i div 8 = rank \<and> i mod 8 = k" by simp
qed

lemma row_general:
  assumes len: "length ps = 64" and ok: "list_all cellOk ps" and r: "0 \<le> rank" "rank < 8"
  shows "n \<le> k \<Longrightarrow> k \<le> 8 \<Longrightarrow> length qs = 64 \<Longrightarrow>
     \<exists>s qs'. fenRowFrom ps rank (map int [k..<8]) row (int n) = Inr (row @ s)
        \<and> (\<forall>c\<in>set s. \<not> isSpace c \<and> c \<noteq> CHR ''/'')
        \<and> setFenRow s rank (int k - int n) qs = (Inr (), qs')
        \<and> length qs' = 64
        \<and> (\<forall>i<64. qs' ! i = (if int i div 8 = rank \<and> k \<le> i mod 8 \<and> truthy (ps ! i)
                               then ps ! i else qs ! i))"
proof (induction "8 - k" arbitrary: k n row qs)
  case 0
  then have k: "k = 8" by simp
  have nm: "\<And>i::nat. \<not> 8 \<le> i mod 8" by (simp add: not_le)
  show ?case
  proof (cases "n = 0")
    case True
    then show ?thesis using k 0 nm by simp
  next
    case False
    then have n: "1 \<le> int n" "int n \<le> 8" using 0 k by auto
    define d where "d = digitChar (nat (int n))"
    from toString_digit [OF n] have d: "toString (int n) = [d]" "charCode d = 48 + int n"
      by (simp_all add: d_def)
    have dr: "charCode (CHR ''1'') \<le> charCode d \<and> charCode d \<le> charCode (CHR ''8'')"
      using d(2) n by (simp add: charCode_def)
    have f: "fenRowFrom ps rank (map int [k..<8]) row (int n) = Inr (row @ [d])"
      using k False d(1) by simp
    have s: "setFenRow [d] rank (int k - int n) qs = (Inr (), qs)"
      using dr by simp
    have c: "\<forall>c\<in>set [d]. \<not> isSpace c \<and> c \<noteq> CHR ''/''"
      using digit_not_separator dr by simp
    show ?thesis using f s c 0(4) k nm by (intro exI [of _ "[d]"] exI [of _ qs]) simp
  qed
next
  case (Suc m)
  then have k: "k < 8" and m: "m = 8 - Suc k" by auto
  define sq where "sq = nat (rank * 8 + int k)"
  have sqi: "squareFromFileRank (int k) rank = int sq" "sq < 64"
    using r k by (auto simp: squareFromFileRank_def sq_def)
  have ag: "aget ps (squareFromFileRank (int k) rank) = ps ! sq"
    using sqi len by (simp add: aget_def)
  have cok: "cellOk (ps ! sq)" using ok sqi(2) len by (simp add: list_all_length)
  have fs: "map int [k..<8] = int k # map int [Suc k..<8]"
    using k by (simp add: upt_conv_Cons)
  have ch: "\<And>i. (int i div 8 = rank \<and> i mod 8 = k) \<longleftrightarrow> i = sq"
    unfolding sq_def using r(1) k by (rule square_of_file_rank)
  show ?case
  proof (cases "ps ! sq")
    case Undefined
    then show ?thesis using cok by (simp add: cellOk_def)
  next
    case Null
    have f: "fenRowFrom ps rank (map int [k..<8]) row (int n)
             = fenRowFrom ps rank (map int [Suc k..<8]) row (int (Suc n))"
      unfolding fs using ag Null by (simp add: add.commute)
    from Suc(1) [of "Suc k" "Suc n" qs row] m Suc(3,4,5) k
    obtain s qs' where ih:
      "fenRowFrom ps rank (map int [Suc k..<8]) row (int (Suc n)) = Inr (row @ s)"
      "\<forall>c\<in>set s. \<not> isSpace c \<and> c \<noteq> CHR ''/''"
      "setFenRow s rank (int (Suc k) - int (Suc n)) qs = (Inr (), qs')"
      "length qs' = 64"
      "\<forall>i<64. qs' ! i = (if int i div 8 = rank \<and> Suc k \<le> i mod 8 \<and> truthy (ps ! i)
                               then ps ! i else qs ! i)"
      by auto
    have p: "\<forall>i<64. qs' ! i = (if int i div 8 = rank \<and> k \<le> i mod 8 \<and> truthy (ps ! i)
                               then ps ! i else qs ! i)"
    proof (intro allI impI)
      fix i :: nat assume i: "i < 64"
      show "qs' ! i = (if int i div 8 = rank \<and> k \<le> i mod 8 \<and> truthy (ps ! i)
                               then ps ! i else qs ! i)"
      proof (cases "i = sq")
        case True
        then have "i mod 8 = k" using ch [of i] by simp
        then show ?thesis using ih(5) i True Null by (simp add: truthy_def)
      next
        case False
        then have "int i div 8 = rank \<Longrightarrow> i mod 8 \<noteq> k" using ch [of i] by simp
        then have "(int i div 8 = rank \<and> Suc k \<le> i mod 8) = (int i div 8 = rank \<and> k \<le> i mod 8)"
          by (auto simp: Suc_le_eq le_less)
        then show ?thesis using ih(5) i by auto
      qed
    qed
    have e: "int (Suc k) - int (Suc n) = int k - int n" by simp
    show ?thesis using f ih(1,2,3,4) p unfolding e by (intro exI [of _ s] exI [of _ qs']) simp
  next
    case (Occupied p)
    then have "1 \<le> pieceType p" "pieceType p \<le> 6" using cok by (simp_all add: cellOk_def)
    then obtain c where c: "symbol p = Inr [c]" "fromSymbol [c] = Inr p"
      "\<not> (charCode (CHR ''1'') \<le> charCode c \<and> charCode c \<le> charCode (CHR ''8''))"
      "c \<noteq> CHR ''/''" "\<not> isSpace c"
      by (rule symbol_roundtrip)
    define pre where "pre = (if n = 0 then [] else toString (int n))"
    define qs1 where "qs1 = qs[sq := Occupied p]"
    have f: "fenRowFrom ps rank (map int [k..<8]) row (int n)
             = fenRowFrom ps rank (map int [Suc k..<8]) (row @ pre @ [c]) (int 0)"
      unfolding fs using ag Occupied c(1) by (simp add: pre_def)
    have l1: "length qs1 = 64" using Suc(5) by (simp add: qs1_def)
    from Suc(1) [of "Suc k" 0 qs1 "row @ pre @ [c]"] m l1 k
    obtain s qs' where ih:
      "fenRowFrom ps rank (map int [Suc k..<8]) (row @ pre @ [c]) (int 0) = Inr ((row @ pre @ [c]) @ s)"
      "\<forall>c\<in>set s. \<not> isSpace c \<and> c \<noteq> CHR ''/''"
      "setFenRow s rank (int (Suc k) - int 0) qs1 = (Inr (), qs')"
      "length qs' = 64"
      "\<forall>i<64. qs' ! i = (if int i div 8 = rank \<and> Suc k \<le> i mod 8 \<and> truthy (ps ! i)
                               then ps ! i else qs1 ! i)"
      by auto
    have as: "aset qs (squareFromFileRank (int k) rank) (Occupied p) = qs1"
      using sqi Suc(5) by (simp add: aset_def qs1_def)
    have nd: "(charCode (CHR ''1'') \<le> charCode c \<and> charCode c \<le> charCode (CHR ''8'')) = False"
      using c(3) by simp
    have s1: "setFenRow (c # s) rank (int k) qs = (Inr (), qs')"
      using c(2) as ih(3) by (simp add: nd add.commute)
    have s2: "setFenRow (pre @ c # s) rank (int k - int n) qs = (Inr (), qs')"
    proof (cases "n = 0")
      case True
      then show ?thesis using s1 by (simp add: pre_def)
    next
      case False
      then have n: "1 \<le> int n" "int n \<le> 8" using Suc(3,4) by auto
      define d where "d = digitChar (nat (int n))"
      from toString_digit [OF n] have d: "toString (int n) = [d]" "charCode d = 48 + int n"
        by (simp_all add: d_def)
      have dr: "charCode (CHR ''1'') \<le> charCode d \<and> charCode d \<le> charCode (CHR ''8'')"
        using d(2) n by (simp add: charCode_def)
      have "pre = [d]" using False d(1) by (simp add: pre_def)
      then show ?thesis using dr d(2) s1 by simp
    qed
    have pc: "\<forall>c\<in>set pre. \<not> isSpace c \<and> c \<noteq> CHR ''/''"
    proof (cases "n = 0")
      case True
      then show ?thesis by (simp add: pre_def)
    next
      case False
      then have n: "1 \<le> int n" "int n \<le> 8" using Suc(3,4) by auto
      define d where "d = digitChar (nat (int n))"
      from toString_digit [OF n] have d: "toString (int n) = [d]" "charCode d = 48 + int n"
        by (simp_all add: d_def)
      have dr: "charCode (CHR ''1'') \<le> charCode d \<and> charCode d \<le> charCode (CHR ''8'')"
        using d(2) n by (simp add: charCode_def)
      have "pre = [d]" using False d(1) by (simp add: pre_def)
      then show ?thesis using digit_not_separator dr by simp
    qed
    have p: "\<forall>i<64. qs' ! i = (if int i div 8 = rank \<and> k \<le> i mod 8 \<and> truthy (ps ! i)
                               then ps ! i else qs ! i)"
    proof (intro allI impI)
      fix i :: nat assume i: "i < 64"
      show "qs' ! i = (if int i div 8 = rank \<and> k \<le> i mod 8 \<and> truthy (ps ! i)
                               then ps ! i else qs ! i)"
      proof (cases "i = sq")
        case True
        then have "int i div 8 = rank" "i mod 8 = k" using ch [of i] by simp_all
        moreover have "qs1 ! sq = Occupied p" using sqi(2) Suc(5) by (simp add: qs1_def)
        ultimately show ?thesis using ih(5) i True Occupied by (simp add: truthy_def)
      next
        case False
        then have "int i div 8 = rank \<Longrightarrow> i mod 8 \<noteq> k" using ch [of i] by simp
        then have "(int i div 8 = rank \<and> Suc k \<le> i mod 8) = (int i div 8 = rank \<and> k \<le> i mod 8)"
          by (auto simp: Suc_le_eq le_less)
        moreover have "qs1 ! i = qs ! i" using False by (simp add: qs1_def)
        ultimately show ?thesis using ih(5) i by auto
      qed
    qed
    have cs: "\<forall>x\<in>set (pre @ c # s). \<not> isSpace x \<and> x \<noteq> CHR ''/''"
      using pc c(4,5) ih(2) by auto
    show ?thesis
      using f ih(1,4) s2 p cs by (intro exI [of _ "pre @ c # s"] exI [of _ qs']) simp
  qed
qed

lemma files_list: "[0, 1, 2, 3, 4, 5, 6, 7] = map int [0..<8]"
  by (simp add: upt_conv_Cons)

lemma fenRow_ok:
  assumes "length ps = 64" "list_all cellOk ps" "0 \<le> rank" "rank < 8"
  shows "\<exists>s. fenRow ps rank = Inr s \<and> (\<forall>c\<in>set s. \<not> isSpace c \<and> c \<noteq> CHR ''/'')"
proof -
  from row_general [OF assms, of 0 0 "replicate 64 Null" "[]"]
  show ?thesis unfolding fenRow_def files_list by auto
qed

lemma setFenRow_post:
  assumes "length ps = 64" "list_all cellOk ps" "0 \<le> rank" "rank < 8"
    and s: "fenRow ps rank = Inr s" and q: "length qs = 64"
  shows "\<exists>qs'. setFenRow s rank 0 qs = (Inr (), qs') \<and> length qs' = 64
           \<and> (\<forall>i<64. qs' ! i = (if int i div 8 = rank \<and> truthy (ps ! i) then ps ! i else qs ! i))"
proof -
  from row_general [OF assms(1-4), of 0 0 qs "[]"] q
  obtain s' qs' where g: "fenRowFrom ps rank (map int [0..<8]) [] (int 0) = Inr ([] @ s')"
     "setFenRow s' rank (int 0 - int 0) qs = (Inr (), qs')" "length qs' = 64"
     "\<forall>i<64. qs' ! i = (if int i div 8 = rank \<and> 0 \<le> i mod 8 \<and> truthy (ps ! i) then ps ! i else qs ! i)"
    by blast
  from g(1) s have "s' = s" unfolding fenRow_def files_list by simp
  then show ?thesis using g(2,3,4) by simp
qed

lemma fenRows_ok:
  assumes "length ps = 64" "list_all cellOk ps"
  shows "\<forall>r\<in>set ranks. 0 \<le> r \<and> r < 8 \<Longrightarrow>
     \<exists>rows. fenRows ps ranks = Inr rows \<and> length rows = length ranks
        \<and> (\<forall>j<length ranks. fenRow ps (ranks ! j) = Inr (rows ! j))
        \<and> (\<forall>x\<in>set rows. \<forall>c\<in>set x. \<not> isSpace c \<and> c \<noteq> CHR ''/'')"
proof (induction ranks)
  case Nil
  then show ?case by simp
next
  case (Cons r ranks)
  then have r: "0 \<le> r" "r < 8" by simp_all
  from fenRow_ok [OF assms r]
  obtain s where s: "fenRow ps r = Inr s" "\<forall>c\<in>set s. \<not> isSpace c \<and> c \<noteq> CHR ''/''" by blast
  from Cons obtain rows where rows: "fenRows ps ranks = Inr rows" "length rows = length ranks"
     "\<forall>j<length ranks. fenRow ps (ranks ! j) = Inr (rows ! j)"
     "\<forall>x\<in>set rows. \<forall>c\<in>set x. \<not> isSpace c \<and> c \<noteq> CHR ''/''"
    by auto
  have n: "\<forall>j<length (r # ranks). fenRow ps ((r # ranks) ! j) = Inr ((s # rows) ! j)"
    using s(1) rows(3) by (auto simp: nth_Cons split: nat.splits)
  show ?case
    using s rows(1,2,4) n by (intro exI [of _ "s # rows"]) simp
qed

lemma setFenRows_post:
  assumes "length ps = 64" "list_all cellOk ps"
  shows "\<forall>r\<in>set ranks. 0 \<le> r \<and> r < 8 \<and> fenRow ps r = Inr (rows ! nat (7 - r)) \<Longrightarrow>
     length qs = 64 \<Longrightarrow>
     \<exists>qs'. setFenRows rows ranks qs = (Inr (), qs') \<and> length qs' = 64
        \<and> (\<forall>i<64. qs' ! i = (if int i div 8 \<in> set ranks \<and> truthy (ps ! i) then ps ! i else qs ! i))"
proof (induction ranks arbitrary: qs)
  case Nil
  then show ?case by simp
next
  case (Cons r ranks)
  then have r: "0 \<le> r" "r < 8" "fenRow ps r = Inr (rows ! nat (7 - r))" by simp_all
  from setFenRow_post [OF assms r Cons(3)]
  obtain qs1 where q1: "setFenRow (rows ! nat (7 - r)) r 0 qs = (Inr (), qs1)" "length qs1 = 64"
    "\<forall>i<64. qs1 ! i = (if int i div 8 = r \<and> truthy (ps ! i) then ps ! i else qs ! i)"
    by blast
  from Cons(1) [of qs1] Cons(2) q1(2)
  obtain qs' where q2: "setFenRows rows ranks qs1 = (Inr (), qs')" "length qs' = 64"
    "\<forall>i<64. qs' ! i = (if int i div 8 \<in> set ranks \<and> truthy (ps ! i) then ps ! i else qs1 ! i)"
    by auto
  have p: "\<forall>i<64. qs' ! i = (if int i div 8 \<in> set (r # ranks) \<and> truthy (ps ! i) then ps ! i else qs ! i)"
    using q1(3) q2(3) by auto
  show ?case using q1(1) q2(1,2) p by (intro exI [of _ qs']) simp
qed

lemma placement_roundtrip:
  assumes len: "length ps = 64" and ok: "list_all cellOk ps"
  shows "\<exists>rows. fenRows ps [7, 6, 5, 4, 3, 2, 1, 0] = Inr rows \<and> length rows = 8
           \<and> (\<forall>x\<in>set rows. \<forall>c\<in>set x. \<not> isSpace c \<and> c \<noteq> CHR ''/'')
           \<and> setFenRows rows [7, 6, 5, 4, 3, 2, 1, 0] (replicate 64 Null) = (Inr (), ps)"
proof -
  let ?ranks = "[7, 6, 5, 4, 3, 2, 1, 0] :: int list"
  have rk: "\<forall>r\<in>set ?ranks. 0 \<le> r \<and> r < 8" by simp
  from fenRows_ok [OF assms rk]
  obtain rows where rows: "fenRows ps ?ranks = Inr rows" "length rows = length ?ranks"
     "\<forall>j<length ?ranks. fenRow ps (?ranks ! j) = Inr (rows ! j)"
     "\<forall>x\<in>set rows. \<forall>c\<in>set x. \<not> isSpace c \<and> c \<noteq> CHR ''/''"
    by blast
  have j: "fenRow ps 7 = Inr (rows ! 0)" "fenRow ps 6 = Inr (rows ! 1)" "fenRow ps 5 = Inr (rows ! 2)"
    "fenRow ps 4 = Inr (rows ! 3)" "fenRow ps 3 = Inr (rows ! 4)" "fenRow ps 2 = Inr (rows ! 5)"
    "fenRow ps 1 = Inr (rows ! 6)" "fenRow ps 0 = Inr (rows ! 7)"
    using rows(3) [rule_format, of 0] rows(3) [rule_format, of 1] rows(3) [rule_format, of 2]
      rows(3) [rule_format, of 3] rows(3) [rule_format, of 4] rows(3) [rule_format, of 5]
      rows(3) [rule_format, of 6] rows(3) [rule_format, of 7]
    by simp_all
  have rr: "\<forall>r\<in>set ?ranks. 0 \<le> r \<and> r < 8 \<and> fenRow ps r = Inr (rows ! nat (7 - r))"
    using j by simp
  from setFenRows_post [OF assms rr, of "replicate 64 Null"]
  obtain qs' where q: "setFenRows rows ?ranks (replicate 64 Null) = (Inr (), qs')" "length qs' = 64"
    "\<forall>i<64. qs' ! i = (if int i div 8 \<in> set ?ranks \<and> truthy (ps ! i) then ps ! i
                        else replicate 64 Null ! i)"
    by auto
  have "qs' = ps"
  proof (rule nth_equalityI)
    show "length qs' = length ps" using q(2) len by simp
  next
    fix i assume "i < length qs'"
    then have i: "i < 64" using q(2) by simp
    have c: "cellOk (ps ! i)" using ok len i by (simp add: list_all_length)
    show "qs' ! i = ps ! i"
    proof (cases "ps ! i")
      case Undefined
      then show ?thesis using c by (simp add: cellOk_def)
    next
      case Null
      then show ?thesis using q(3) i by (simp add: truthy_def)
    next
      case (Occupied p)
      have "int i div 8 \<in> {0..7}" using i by auto
      then have "int i div 8 \<in> set ?ranks" by auto
      then show ?thesis using q(3) i Occupied by (simp add: truthy_def)
    qed
  qed
  then show ?thesis using rows(1,2,4) q(1) by (intro exI [of _ rows]) simp
qed

subsection \<open>The other fields\<close>

lemma join_hd: "y \<noteq> [] \<Longrightarrow> join sep (y # ys) \<noteq> [] \<and> hd (join sep (y # ys)) = hd y"
  by (cases ys) auto

lemma splitSpaces_join:
  "ws \<noteq> [] \<Longrightarrow> \<forall>x\<in>set (tl ws). x \<noteq> [] \<Longrightarrow> \<forall>x\<in>set ws. \<forall>c\<in>set x. \<not> isSpace c
   \<Longrightarrow> splitSpaces (join '' '' ws) = ws"
proof (induction "'' ''" ws rule: join.induct)
  case 1
  then show ?case by simp
next
  case (2 x)
  then show ?case by (simp add: splitSpaces_word)
next
  case (3 x y ys)
  have y: "y \<noteq> []" using 3(3) by simp
  then have h: "join '' '' (y # ys) \<noteq> []" "hd (join '' '' (y # ys)) = hd y"
    using join_hd [of y "'' ''" ys] by simp_all
  have "hd y \<in> set y" using y by simp
  then have n: "\<not> isSpace (hd (join '' '' (y # ys)))" using 3(4) h(2) by simp
  have x: "\<forall>c\<in>set x. \<not> isSpace c" using 3(4) by simp
  have "splitSpaces (x @ CHR '' '' # join '' '' (y # ys)) = x # splitSpaces (join '' '' (y # ys))"
    using x h(1) n by (rule splitSpaces_step)
  moreover have "splitSpaces (join '' '' (y # ys)) = y # ys" using 3 by simp
  ultimately show ?case by simp
qed

lemma castling_all:
  "list_all (\<lambda>n. let s = castlingString (emptyBoard\<lparr>castlingRights := int n\<rparr>)
                 in s \<noteq> [] \<and> list_all (\<lambda>c. \<not> isSpace c) s
                    \<and> (if s \<noteq> ''-'' then castlingFromString s else 0) = int n) [0..<16]"
  by code_simp

lemma castling_roundtrip:
  assumes "0 \<le> castlingRights b" "castlingRights b < 16"
  shows "castlingString b \<noteq> [] \<and> (\<forall>c\<in>set (castlingString b). \<not> isSpace c)
         \<and> (if castlingString b \<noteq> ''-'' then castlingFromString (castlingString b) else 0)
           = castlingRights b"
proof -
  have n: "nat (castlingRights b) \<in> set [0..<16]" using assms by auto
  have e: "castlingString (emptyBoard\<lparr>castlingRights := int (nat (castlingRights b))\<rparr>)
           = castlingString b"
    using assms(1) by (simp add: castlingString_def hasRight_def)
  from castling_all n
  have "let s = castlingString (emptyBoard\<lparr>castlingRights := int (nat (castlingRights b))\<rparr>)
        in s \<noteq> [] \<and> list_all (\<lambda>c. \<not> isSpace c) s
           \<and> (if s \<noteq> ''-'' then castlingFromString s else 0) = int (nat (castlingRights b))"
    unfolding list_all_iff by blast
  then show ?thesis unfolding e Let_def using assms(1) by (simp add: list_all_iff)
qed

lemma square_names_words:
  "list_all (\<lambda>n. SQUARE_NAMES ! n \<noteq> [] \<and> SQUARE_NAMES ! n \<noteq> ''-''
      \<and> list_all (\<lambda>c. \<not> isSpace c) (SQUARE_NAMES ! n)
      \<and> parseSquare (SQUARE_NAMES ! n) = Some (int n)) [0..<64]"
  by code_simp

lemma epSquare_roundtrip:
  assumes "0 \<le> sq" "sq < 64"
  obtains s where "squareName sq = Some s" "s \<noteq> []" "s \<noteq> ''-''" "\<forall>c\<in>set s. \<not> isSpace c"
    "parseSquare s = Some sq"
proof -
  have n: "nat sq \<in> set [0..<64]" using assms by auto
  from square_names_words n
  have "SQUARE_NAMES ! nat sq \<noteq> [] \<and> SQUARE_NAMES ! nat sq \<noteq> ''-''
      \<and> list_all (\<lambda>c. \<not> isSpace c) (SQUARE_NAMES ! nat sq)
      \<and> parseSquare (SQUARE_NAMES ! nat sq) = Some (int (nat sq))"
    unfolding list_all_iff [of _ "[0..<64]"] by blast
  moreover have "squareName sq = Some (SQUARE_NAMES ! nat sq)"
    using assms by (simp add: squareName_def js_nth_def SQUARE_NAMES_def)
  ultimately show ?thesis using that [of "SQUARE_NAMES ! nat sq"] assms by (simp add: list_all_iff)
qed

lemma slash_not_space: "\<not> isSpace (CHR ''/'')"
  by (simp add: isSpace_def charCode_def)

lemma join_chars:
  "\<forall>x\<in>set xs. \<forall>c\<in>set x. P c \<Longrightarrow> \<forall>c\<in>set sep. P c \<Longrightarrow> \<forall>c\<in>set (join sep xs). P c"
  by (induction sep xs rule: join.induct) auto

subsection \<open>Reading back the FEN of a board\<close>

lemma setFen_parts:
  assumes "splitSpaces f = [pl, t, cs, e, hm, fn]" "splitOn (CHR ''/'') pl = rows" "length rows = 8"
    and "setFenRows rows [7, 6, 5, 4, 3, 2, 1, 0] (replicate (length (pieces b)) Null) = (Inr (), ps)"
  shows "setFen f b =
     (Inr (),
      b\<lparr>pieces := ps, moveStack := [],
        turn := (if t = ''b'' then BLACK else WHITE),
        castlingRights := (if cs \<noteq> ''-'' then castlingFromString cs else 0),
        epSquare := (if e \<noteq> ''-'' then parseSquare e else None),
        halfmoveClock := parseIntOr hm 0,
        fullmoveNumber := parseIntOr fn 1\<rparr>)"
  unfolding setFen_def Let_def assms(1) using assms(2,3,4) by simp


text \<open>
  Claim C4, as the code has it. For a board with 64 squares that are empty or hold a
  piece of type 1 to 6, castling rights within 0..15, an en-passant square that is absent
  or within 0..63, a halfmove clock and a fullmove number that are safe integers (whole
  numbers of magnitude at most \<open>2^53 - 1\<close>), and a fullmove number other than 0,
  \<open>fen()\<close> returns a string, and \<open>setFen\<close> of that string returns normally and leaves
  the side to move, the castling rights, the en-passant square, both clocks and all 64
  squares as they were; the only change is that the move stack is emptied.
\<close>

theorem setFen_fen_roundtrip:
  assumes "wellFormed b"
  shows "\<exists>f. fen b = Inr f \<and> setFen f b = (Inr (), b\<lparr>moveStack := []\<rparr>)"
proof -
  from assms have len: "length (pieces b) = 64" and ok: "list_all cellOk (pieces b)"
    and cr: "0 \<le> castlingRights b" "castlingRights b < 16"
    and ep: "case epSquare b of None \<Rightarrow> True | Some sq \<Rightarrow> 0 \<le> sq \<and> sq < 64"
    and fm: "fullmoveNumber b \<noteq> 0"
    by (simp_all add: wellFormed_def)
  from placement_roundtrip [OF len ok]
  obtain rows where rows: "fenRows (pieces b) [7, 6, 5, 4, 3, 2, 1, 0] = Inr rows" "length rows = 8"
     "\<forall>x\<in>set rows. \<forall>c\<in>set x. \<not> isSpace c \<and> c \<noteq> CHR ''/''"
     "setFenRows rows [7, 6, 5, 4, 3, 2, 1, 0] (replicate 64 Null) = (Inr (), pieces b)"
    by blast
  define pl where "pl = join ''/'' rows"
  define t where "t = (if turn b = WHITE then ''w'' else ''b'')"
  define cs where "cs = castlingString b"
  define e where "e = (case epSquare b of None \<Rightarrow> ''-''
                       | Some sq \<Rightarrow> (case squareName sq of None \<Rightarrow> [] | Some n \<Rightarrow> n))"
  define hm where "hm = toString (halfmoveClock b)"
  define fn where "fn = toString (fullmoveNumber b)"
  define f where "f = join '' '' [pl, t, cs, e, hm, fn]"
  have fen: "fen b = Inr f"
    unfolding fen_def rows(1) by (simp add: f_def pl_def t_def cs_def e_def hm_def fn_def)
  have pl: "\<forall>c\<in>set pl. \<not> isSpace c"
    unfolding pl_def using rows(3) slash_not_space by (intro join_chars) auto
  have t: "t \<noteq> []" "\<forall>c\<in>set t. \<not> isSpace c" "(t = ''b'') = (turn b = BLACK)"
    by (auto simp: t_def isSpace_def charCode_def)
  have cs: "cs \<noteq> []" "\<forall>c\<in>set cs. \<not> isSpace c"
    "(if cs \<noteq> ''-'' then castlingFromString cs else 0) = castlingRights b"
    using castling_roundtrip [OF cr] unfolding cs_def by blast+
  have e: "e \<noteq> [] \<and> (\<forall>c\<in>set e. \<not> isSpace c)
           \<and> (if e \<noteq> ''-'' then parseSquare e else None) = epSquare b"
  proof (cases "epSquare b")
    case None
    then show ?thesis by (simp add: e_def isSpace_def charCode_def)
  next
    case (Some sq)
    then have "0 \<le> sq" "sq < 64" using ep by simp_all
    then obtain s where "squareName sq = Some s" "s \<noteq> []" "s \<noteq> ''-''" "\<forall>c\<in>set s. \<not> isSpace c"
      "parseSquare s = Some sq"
      by (rule epSquare_roundtrip)
    then show ?thesis using Some by (simp add: e_def)
  qed
  have hm: "hm \<noteq> []" "\<forall>c\<in>set hm. \<not> isSpace c" "parseIntOr hm 0 = halfmoveClock b"
    using toString_word [of "halfmoveClock b"]
    by (simp_all add: hm_def parseIntOr_def parseInt_toString)
  have fn: "fn \<noteq> []" "\<forall>c\<in>set fn. \<not> isSpace c" "parseIntOr fn 1 = fullmoveNumber b"
    using toString_word [of "fullmoveNumber b"] fm
    by (simp_all add: fn_def parseIntOr_def parseInt_toString)
  have sp: "splitSpaces f = [pl, t, cs, e, hm, fn]"
    unfolding f_def using pl t(1,2) cs(1,2) e hm(1,2) fn(1,2)
    by (intro splitSpaces_join) auto
  have rn: "rows \<noteq> []" using rows(2) by (cases rows) simp_all
  have rs: "\<forall>x\<in>set rows. CHR ''/'' \<notin> set x" using rows(3) by blast
  have so: "splitOn (CHR ''/'') pl = rows"
    unfolding pl_def using rn rs by (rule splitOn_join)
  have r4: "setFenRows rows [7, 6, 5, 4, 3, 2, 1, 0] (replicate (length (pieces b)) Null)
            = (Inr (), pieces b)"
    unfolding len by (rule rows(4))
  have tb: "(if t = ''b'' then BLACK else WHITE) = turn b" using t(3) by simp
  have eb: "(if e \<noteq> ''-'' then parseSquare e else None) = epSquare b" using e by blast
  have "setFen f b = (Inr (), b\<lparr>moveStack := []\<rparr>)"
    unfolding setFen_parts [OF sp so rows(2) r4] tb cs(3) eb hm(3) fn(3) by simp
  with fen show ?thesis by blast
qed

lemma enPassantPosition_wellFormed: "wellFormed enPassantPosition"
  by code_simp

lemma enPassantPosition_prints:
  "fen enPassantPosition = Inr ''rnbqkbnr/ppp2ppp/4p3/3pP3/8/8/PPPP1PPP/RNBQKBNR w KQkq d6 0 3''"
  by code_simp

theorem setFen_fen_roundtrip_witness:
  "wellFormed enPassantPosition
   \<and> fen enPassantPosition = Inr ''rnbqkbnr/ppp2ppp/4p3/3pP3/8/8/PPPP1PPP/RNBQKBNR w KQkq d6 0 3''
   \<and> setFen ''rnbqkbnr/ppp2ppp/4p3/3pP3/8/8/PPPP1PPP/RNBQKBNR w KQkq d6 0 3'' enPassantPosition
       = (Inr (), enPassantPosition\<lparr>moveStack := []\<rparr>)"
  using setFen_fen_roundtrip [OF enPassantPosition_wellFormed]
    enPassantPosition_wellFormed enPassantPosition_prints
  by auto

text \<open>
  Claim C4 as stated fails. A board whose fullmove number was set to 0 prints it as
  \<open>0\<close>, which \<open>setFen\<close> reads back as 1 (\<open>parseInt('0') || 1\<close>); a board whose
  castling rights were set to 16, a bit outside the four flags, prints them as \<open>-\<close>,
  which \<open>setFen\<close> reads back as 0. Both calls return normally. (A clock of \<open>1e21\<close> or
  more fails as well, being printed as \<open>1e+21\<close> and read back as 1; that case lies
  outside the range in which \<open>toString\<close> is modelled.)
\<close>

theorem setFen_fen_counterexample:
  "fen (startPosition\<lparr>fullmoveNumber := 0\<rparr>)
     = Inr ''rnbqkbnr/pppppppp/8/8/8/8/PPPPPPPP/RNBQKBNR w KQkq - 0 0''
   \<and> fst (setFen ''rnbqkbnr/pppppppp/8/8/8/8/PPPPPPPP/RNBQKBNR w KQkq - 0 0''
            (startPosition\<lparr>fullmoveNumber := 0\<rparr>)) = Inr ()
   \<and> fullmoveNumber (snd (setFen ''rnbqkbnr/pppppppp/8/8/8/8/PPPPPPPP/RNBQKBNR w KQkq - 0 0''
                            (startPosition\<lparr>fullmoveNumber := 0\<rparr>))) = 1
   \<and> fen (startPosition\<lparr>castlingRights := 16\<rparr>)
     = Inr ''rnbqkbnr/pppppppp/8/8/8/8/PPPPPPPP/RNBQKBNR w - - 0 1''
   \<and> fst (setFen ''rnbqkbnr/pppppppp/8/8/8/8/PPPPPPPP/RNBQKBNR w - - 0 1''
            (startPosition\<lparr>castlingRights := 16\<rparr>)) = Inr ()
   \<and> castlingRights (snd (setFen ''rnbqkbnr/pppppppp/8/8/8/8/PPPPPPPP/RNBQKBNR w - - 0 1''
                            (startPosition\<lparr>castlingRights := 16\<rparr>))) = 0"
  by code_simp

section \<open>Properties of the board cache\<close>

lemma saveState_copy: "saveState (copy b) = saveState b"
  by (simp add: saveState_def copy_def)

lemma fen_saveState:
  assumes "saveState b = saveState b'"
  shows "fen b = fen b'"
proof -
  from assms have e: "turn b = turn b'" "castlingRights b = castlingRights b'" "epSquare b = epSquare b'"
    "halfmoveClock b = halfmoveClock b'" "fullmoveNumber b = fullmoveNumber b'" "pieces b = pieces b'"
    by (simp_all add: saveState_def)
  show ?thesis unfolding fen_def castlingString_def hasRight_def e ..
qed

lemma heapOk_cache:
  assumes "heapOk g h" "i < length (nodes g)" "cachedBoard (caches h ! i) = Some c"
  shows "c < length (boards h)"
proof -
  from assms(1,2) have "i < length (caches h)" by (simp add: heapOk_def)
  moreover from assms(1)
  have "\<forall>i<length (caches h). case cachedBoard (caches h ! i) of None \<Rightarrow> True | Some a \<Rightarrow> a < length (boards h)"
    by (simp add: heapOk_def list_all_length)
  ultimately show ?thesis using assms(3) by fastforce
qed

lemma heapOk_I:
  assumes "length (caches h) = length (nodes g)"
    and "\<And>i c. i < length (nodes g) \<Longrightarrow> cachedBoard (caches h ! i) = Some c \<Longrightarrow> c < length (boards h)"
  shows "heapOk g h"
  using assms by (auto simp: heapOk_def list_all_length split: option.splits)

lemma heapOk_length: "heapOk g h \<Longrightarrow> length (caches h) = length (nodes g)"
  by (simp add: heapOk_def)

lemma fresh_newBoardAt:
  assumes "heapOk g h"
  shows "freshResult g h (newBoardAt f h)"
proof (cases "newBoard f")
  case (Inl e)
  then show ?thesis using assms by (simp add: newBoardAt_def freshResult_def)
next
  case (Inr b)
  have ok: "heapOk g (h\<lparr>boards := boards h @ [b]\<rparr>)"
  proof (rule heapOk_I)
    show "length (caches (h\<lparr>boards := boards h @ [b]\<rparr>)) = length (nodes g)"
      using assms by (simp add: heapOk_length)
  next
    fix i c assume "i < length (nodes g)" "cachedBoard (caches (h\<lparr>boards := boards h @ [b]\<rparr>) ! i) = Some c"
    then have "c < length (boards h)" using heapOk_cache [OF assms, of i c] by simp
    then show "c < length (boards (h\<lparr>boards := boards h @ [b]\<rparr>))" by simp
  qed
  have nc: "\<forall>i<length (nodes g). cachedBoard (caches h ! i) \<noteq> Some (length (boards h))"
    using heapOk_cache [OF assms] by fastforce
  show ?thesis
    using Inr ok nc by (simp add: newBoardAt_def freshResult_def nth_append)
qed

lemma fresh_applyMove:
  assumes "freshResult g h res"
  shows "freshResult g h (applyMove mv res)"
proof (cases res)
  case (Pair r h1)
  show ?thesis
  proof (cases r)
    case (Inl e)
    then show ?thesis using assms Pair by (simp add: applyMove_def)
  next
    case (Inr a)
    show ?thesis
    proof (cases mv)
      case None
      then show ?thesis using assms Pair Inr by (simp add: applyMove_def)
    next
      case (Some m)
      obtain r' b' where p: "push m (boards h1 ! a) = (r', b')" by (cases "push m (boards h1 ! a)")
      define h2 where "h2 = h1\<lparr>boards := (boards h1)[a := b']\<rparr>"
      from assms Pair Inr have f: "heapOk g h1" "length (boards h) \<le> length (boards h1)"
        "\<forall>i<length (boards h). boards h1 ! i = boards h ! i"
        "length (boards h) \<le> a" "a < length (boards h1)"
        "\<forall>i<length (nodes g). cachedBoard (caches h1 ! i) \<noteq> Some a"
        by (simp_all add: freshResult_def)
      have ok: "heapOk g h2"
      proof (rule heapOk_I)
        show "length (caches h2) = length (nodes g)" using f(1) by (simp add: h2_def heapOk_length)
      next
        fix i d assume "i < length (nodes g)" "cachedBoard (caches h2 ! i) = Some d"
        then have "d < length (boards h1)" using heapOk_cache [OF f(1), of i d] by (simp add: h2_def)
        then show "d < length (boards h2)" by (simp add: h2_def)
      qed
      have old: "\<forall>i<length (boards h). boards h2 ! i = boards h ! i"
        using f(3,4) by (simp add: h2_def)
      have g2: "freshResult g h (Inl e, h2)" for e
        using ok old f(2) by (simp add: freshResult_def h2_def)
      have g3: "freshResult g h (Inr a, h2)"
        using ok old f(2,4,5,6) by (simp add: freshResult_def h2_def)
      have "applyMove mv res = (case r' of Inl e \<Rightarrow> (Inl e, h2) | Inr u \<Rightarrow> (Inr a, h2))"
        using Pair Inr Some p by (simp add: applyMove_def pushAt_def h2_def split: sum.splits)
      then show ?thesis using g2 g3 by (cases r') simp_all
    qed
  qed
qed

lemma fresh_cacheResult:
  assumes "n < length (nodes g)" "freshResult g h res"
  shows "freshResult g h (cacheResult n res)
     \<and> (\<forall>a h1. cacheResult n res = (Inr a, h1) \<longrightarrow>
           boardValid (caches h1 ! n)
           \<and> (\<exists>c. cachedBoard (caches h1 ! n) = Some c
                  \<and> saveState (boards h1 ! c) = saveState (boards h1 ! a)))"
proof (cases res)
  case (Pair r h1)
  show ?thesis
  proof (cases r)
    case (Inl e)
    then show ?thesis using assms Pair by (simp add: cacheResult_def)
  next
    case (Inr a)
    from assms Pair Inr have f: "heapOk g h1" "length (boards h) \<le> length (boards h1)"
      "\<forall>i<length (boards h). boards h1 ! i = boards h ! i"
      "length (boards h) \<le> a" "a < length (boards h1)"
      "\<forall>i<length (nodes g). cachedBoard (caches h1 ! i) \<noteq> Some a"
      by (simp_all add: freshResult_def)
    define c where "c = length (boards h1)"
    define h2 where "h2 = \<lparr>boards = boards h1 @ [copy (boards h1 ! a)],
                           caches = (caches h1)[n := \<lparr>cachedBoard = Some c, boardValid = True\<rparr>]\<rparr>"
    have r: "cacheResult n res = (Inr a, h2)"
      using Pair Inr by (simp add: cacheResult_def copyAt_def h2_def c_def)
    have ln: "n < length (caches h1)" using f(1) assms(1) by (simp add: heapOk_length)
    have cn: "caches h2 ! n = \<lparr>cachedBoard = Some c, boardValid = True\<rparr>"
      using ln by (simp add: h2_def)
    have co: "\<And>i. i \<noteq> n \<Longrightarrow> caches h2 ! i = caches h1 ! i" by (simp add: h2_def)
    have ok: "heapOk g h2"
    proof (rule heapOk_I)
      show "length (caches h2) = length (nodes g)" using f(1) by (simp add: h2_def heapOk_length)
    next
      fix i d assume i: "i < length (nodes g)" "cachedBoard (caches h2 ! i) = Some d"
      show "d < length (boards h2)"
      proof (cases "i = n")
        case True
        then show ?thesis using i(2) cn by (simp add: h2_def c_def)
      next
        case False
        then have "cachedBoard (caches h1 ! i) = Some d" using i(2) co by simp
        then have "d < length (boards h1)" using heapOk_cache [OF f(1) i(1)] by simp
        then show ?thesis by (simp add: h2_def)
      qed
    qed
    have na: "\<forall>i<length (nodes g). cachedBoard (caches h2 ! i) \<noteq> Some a"
    proof (intro allI impI)
      fix i assume i: "i < length (nodes g)"
      show "cachedBoard (caches h2 ! i) \<noteq> Some a"
      proof (cases "i = n")
        case True
        then show ?thesis using cn f(5) by (simp add: c_def)
      next
        case False
        then show ?thesis using co f(6) i by simp
      qed
    qed
    have old: "\<forall>i<length (boards h). boards h2 ! i = boards h ! i"
      using f(2,3) by (simp add: h2_def nth_append)
    have fr: "freshResult g h (Inr a, h2)"
      using ok old na f(2,4,5) by (simp add: freshResult_def h2_def)
    have ba: "boards h2 ! a = boards h1 ! a" using f(5) by (simp add: h2_def nth_append)
    have bc: "boards h2 ! c = copy (boards h1 ! a)" by (simp add: h2_def c_def)
    have sv: "saveState (boards h2 ! c) = saveState (boards h2 ! a)"
      unfolding ba bc by (rule saveState_copy)
    show ?thesis unfolding r using fr cn sv by simp
  qed
qed

lemma fresh_hit:
  assumes "heapOk g h" "n < length (nodes g)" "cachedBoard (caches h ! n) = Some c"
    and "copyAt c h = (a, h1)"
  shows "freshResult g h (Inr a, h1)"
    and "cachedBoard (caches h1 ! n) = Some c"
    and "saveState (boards h1 ! c) = saveState (boards h1 ! a)"
    and "caches h1 = caches h" and "a = length (boards h)"
    and "boards h1 = boards h @ [copy (boards h ! c)]"
proof -
  from assms(4) have a: "a = length (boards h)" and h1: "h1 = h\<lparr>boards := boards h @ [copy (boards h ! c)]\<rparr>"
    by (simp_all add: copyAt_def)
  have c: "c < length (boards h)" using heapOk_cache [OF assms(1,2,3)] .
  have ok: "heapOk g h1"
  proof (rule heapOk_I)
    show "length (caches h1) = length (nodes g)" using assms(1) by (simp add: h1 heapOk_length)
  next
    fix i d assume "i < length (nodes g)" "cachedBoard (caches h1 ! i) = Some d"
    then have "d < length (boards h)" using heapOk_cache [OF assms(1), of i d] by (simp add: h1)
    then show "d < length (boards h1)" by (simp add: h1)
  qed
  have nc: "\<forall>i<length (nodes g). cachedBoard (caches h1 ! i) \<noteq> Some a"
    using heapOk_cache [OF assms(1)] by (fastforce simp: h1 a)
  show "freshResult g h (Inr a, h1)"
    using ok nc by (simp add: freshResult_def h1 a nth_append)
  show "cachedBoard (caches h1 ! n) = Some c" using assms(3) by (simp add: h1)
  show "saveState (boards h1 ! c) = saveState (boards h1 ! a)"
    using c by (simp add: h1 a nth_append saveState_copy)
  show "caches h1 = caches h" by (simp add: h1)
  show "a = length (boards h)" by (rule a)
  show "boards h1 = boards h @ [copy (boards h ! c)]" by (simp add: h1)
qed

lemma freshResult_trans:
  assumes "freshResult g h (r, h1)" "freshResult g h1 res"
  shows "freshResult g h res"
proof (cases res)
  case (Pair r2 h2)
  from assms(1) have a: "length (boards h) \<le> length (boards h1)"
    "\<forall>i<length (boards h). boards h1 ! i = boards h ! i"
    by (simp_all add: freshResult_def)
  from assms(2) Pair have b: "heapOk g h2" "length (boards h1) \<le> length (boards h2)"
    "\<forall>i<length (boards h1). boards h2 ! i = boards h1 ! i"
    "case r2 of Inl e \<Rightarrow> True
     | Inr a \<Rightarrow> length (boards h1) \<le> a \<and> a < length (boards h2)
         \<and> (\<forall>i<length (nodes g). cachedBoard (caches h2 ! i) \<noteq> Some a)"
    by (simp_all add: freshResult_def)
  have old: "\<forall>i<length (boards h). boards h2 ! i = boards h ! i" using a b(3) by auto
  show ?thesis
    using Pair a(1) b(1,2,4) old by (auto simp: freshResult_def split: sum.splits)
qed

lemma treeShaped_parent:
  assumes "treeShaped g" "n < length (nodes g)" "parent (nodes g ! n) = Some p"
  shows "p < n"
proof -
  from assms(1) have "\<forall>i<length (nodes g). case parent (nodes g ! i) of None \<Rightarrow> True | Some p \<Rightarrow> p < i"
    by (simp add: treeShaped_def list_all_iff)
  then show ?thesis using assms(2,3) by fastforce
qed

lemma nodeBoard_fresh:
  assumes "treeShaped g"
  shows "heapOk g h \<Longrightarrow> n < length (nodes g) \<Longrightarrow> nodeBoard k g n h = Some res \<Longrightarrow>
     freshResult g h res
     \<and> (\<forall>a h1. res = (Inr a, h1) \<longrightarrow>
           boardValid (caches h1 ! n)
           \<and> (\<exists>c. cachedBoard (caches h1 ! n) = Some c
                  \<and> saveState (boards h1 ! c) = saveState (boards h1 ! a)))"
proof (induction k arbitrary: n h res)
  case 0
  then show ?case by simp
next
  case (Suc k)
  show ?case
  proof (cases "boardValid (caches h ! n) \<and> cachedBoard (caches h ! n) \<noteq> None")
    case True
    then obtain c where c: "cachedBoard (caches h ! n) = Some c" by auto
    obtain a h1 where cp: "copyAt c h = (a, h1)" by (cases "copyAt c h")
    have res: "res = (Inr a, h1)" using Suc(4) True c cp by simp
    have v: "boardValid (caches h1 ! n)" using True fresh_hit(4) [OF Suc(2,3) c cp] by simp
    show ?thesis
      unfolding res using fresh_hit(1,2,3) [OF Suc(2,3) c cp] v by simp
  next
    case False
    have nb: "nodeBoard (Suc k) g n h =
       (case parent (nodes g ! n) of
           None \<Rightarrow> Some (cacheResult n (newBoardAt (getStartingFen g) h))
         | Some p \<Rightarrow>
             (case nodeBoard k g p h of
                None \<Rightarrow> None
              | Some res \<Rightarrow> Some (cacheResult n (applyMove (nodeMove (nodes g ! n)) res))))"
      by (subst nodeBoard.simps(2)) (rule if_not_P [OF False])
    show ?thesis
    proof (cases "parent (nodes g ! n)")
      case None
      have res: "res = cacheResult n (newBoardAt (getStartingFen g) h)"
        using Suc(4) None unfolding nb by simp
      show ?thesis
        unfolding res using fresh_cacheResult [OF Suc(3) fresh_newBoardAt [OF Suc(2)]] .
    next
      case (Some p)
      have p: "p < length (nodes g)" using treeShaped_parent [OF assms Suc(3) Some] Suc(3) by simp
      from Suc(4) Some obtain res' where
        r': "nodeBoard k g p h = Some res'"
        and res: "res = cacheResult n (applyMove (nodeMove (nodes g ! n)) res')"
        unfolding nb by (auto split: option.splits)
      have "freshResult g h res'" using Suc(1) [OF Suc(2) p r'] by simp
      then have "freshResult g h (applyMove (nodeMove (nodes g ! n)) res')" by (rule fresh_applyMove)
      then show ?thesis unfolding res by (rule fresh_cacheResult [OF Suc(3)])
    qed
  qed
qed

lemma nodeBoard_returns:
  assumes "treeShaped g"
  shows "n < length (nodes g) \<Longrightarrow> n < k \<Longrightarrow> \<exists>res. nodeBoard k g n h = Some res"
proof (induction k arbitrary: n)
  case 0
  then show ?case by simp
next
  case (Suc k)
  show ?case
  proof (cases "parent (nodes g ! n)")
    case None
    then show ?thesis by (simp split: prod.splits)
  next
    case (Some p)
    have "p < n" using treeShaped_parent [OF assms Suc(2) Some] .
    then have "p < length (nodes g)" "p < k" using Suc(2,3) by simp_all
    then obtain res where "nodeBoard k g p h = Some res" using Suc(1) by blast
    then show ?thesis using Some by (simp split: prod.splits)
  qed
qed

text \<open>
  Claim C9. On a store in which every parent comes before its children, and a heap in
  which the cache fields refer to existing boards, \<open>board()\<close> returns within as many
  nested calls as the node has ancestors. Whenever it returns a board, that board is one
  that no cache field of any node refers to; and whatever the caller then does to it
  (its entry in the heap replaced by any board at all), the next call of \<open>board()\<close> on
  the node returns another board, whose position is the one the first board had when it
  was returned, \<open>fen()\<close> returns the FEN of that position, the cache fields are the same
  and the boards they refer to are unchanged.
\<close>

theorem board_returns_owned_copy:
  assumes "treeShaped g" "heapOk g h" "n < length (nodes g)"
  shows "(\<exists>res. nodeBoard (Suc n) g n h = Some res)
    \<and> (\<forall>k a h1. nodeBoard k g n h = Some (Inr a, h1) \<longrightarrow>
         a < length (boards h1)
         \<and> (\<forall>i<length (nodes g). cachedBoard (caches h1 ! i) \<noteq> Some a)
         \<and> (\<forall>b' j. \<exists>a2 h2.
               nodeBoard (Suc j) g n (h1\<lparr>boards := (boards h1)[a := b']\<rparr>) = Some (Inr a2, h2)
               \<and> a2 \<noteq> a
               \<and> saveState (boards h2 ! a2) = saveState (boards h1 ! a)
               \<and> nodeFen (Suc j) g n (h1\<lparr>boards := (boards h1)[a := b']\<rparr>)
                   = Some (fen (boards h1 ! a), h2)
               \<and> caches h2 = caches h1
               \<and> (\<forall>i<length (nodes g). \<forall>c. cachedBoard (caches h1 ! i) = Some c
                      \<longrightarrow> boards h2 ! c = boards h1 ! c)))"
proof (intro conjI allI impI)
  show "\<exists>res. nodeBoard (Suc n) g n h = Some res"
    using assms(1,3) by (intro nodeBoard_returns) simp_all
next
  fix k a h1 assume nb: "nodeBoard k g n h = Some (Inr a, h1)"
  from nodeBoard_fresh [OF assms nb]
  have fr: "freshResult g h (Inr a, h1)" and v: "boardValid (caches h1 ! n)"
    and "\<exists>c. cachedBoard (caches h1 ! n) = Some c \<and> saveState (boards h1 ! c) = saveState (boards h1 ! a)"
    by simp_all
  then obtain c where c: "cachedBoard (caches h1 ! n) = Some c"
    and sv: "saveState (boards h1 ! c) = saveState (boards h1 ! a)" by blast
  from fr have ok: "heapOk g h1" and a: "a < length (boards h1)"
    and na: "\<forall>i<length (nodes g). cachedBoard (caches h1 ! i) \<noteq> Some a"
    by (simp_all add: freshResult_def)
  show "a < length (boards h1)" by (rule a)
  show "\<And>i. i < length (nodes g) \<Longrightarrow> cachedBoard (caches h1 ! i) \<noteq> Some a" using na by simp
  fix b' j
  define h' where "h' = h1\<lparr>boards := (boards h1)[a := b']\<rparr>"
  define h2 where "h2 = h'\<lparr>boards := boards h' @ [copy (boards h' ! c)]\<rparr>"
  have cl: "c < length (boards h1)" using heapOk_cache [OF ok assms(3) c] .
  have ca: "c \<noteq> a" using na assms(3) c by auto
  have hit: "boardValid (caches h' ! n) \<and> cachedBoard (caches h' ! n) \<noteq> None"
    using v c by (simp add: h'_def)
  have "nodeBoard (Suc j) g n h' =
          (case copyAt (the (cachedBoard (caches h' ! n))) h' of (a, h1) \<Rightarrow> Some (Inr a, h1))"
    by (subst nodeBoard.simps(2)) (rule if_P [OF hit])
  also have "the (cachedBoard (caches h' ! n)) = c" using c by (simp add: h'_def)
  finally have r: "nodeBoard (Suc j) g n h' = Some (Inr (length (boards h1)), h2)"
    by (simp add: copyAt_def h2_def h'_def)
  have b2: "boards h2 ! length (boards h1) = copy (boards h1 ! c)"
    using ca by (simp add: h2_def h'_def nth_append)
  have s2: "saveState (boards h2 ! length (boards h1)) = saveState (boards h1 ! a)"
    unfolding b2 saveState_copy by (rule sv)
  have f2: "nodeFen (Suc j) g n h' = Some (fen (boards h1 ! a), h2)"
    unfolding nodeFen_def r using fen_saveState [OF s2] by simp
  have c2: "caches h2 = caches h1" by (simp add: h2_def h'_def)
  have k2: "\<forall>i<length (nodes g). \<forall>d. cachedBoard (caches h1 ! i) = Some d
               \<longrightarrow> boards h2 ! d = boards h1 ! d"
  proof (intro allI impI)
    fix i d assume i: "i < length (nodes g)" "cachedBoard (caches h1 ! i) = Some d"
    have "d < length (boards h1)" using heapOk_cache [OF ok i] .
    moreover have "d \<noteq> a" using na i by auto
    ultimately show "boards h2 ! d = boards h1 ! d" by (simp add: h2_def h'_def nth_append)
  qed
  have "length (boards h1) \<noteq> a" using a by simp
  then show "\<exists>a2 h2.
       nodeBoard (Suc j) g n (h1\<lparr>boards := (boards h1)[a := b']\<rparr>) = Some (Inr a2, h2)
       \<and> a2 \<noteq> a
       \<and> saveState (boards h2 ! a2) = saveState (boards h1 ! a)
       \<and> nodeFen (Suc j) g n (h1\<lparr>boards := (boards h1)[a := b']\<rparr>) = Some (fen (boards h1 ! a), h2)
       \<and> caches h2 = caches h1
       \<and> (\<forall>i<length (nodes g). \<forall>c. cachedBoard (caches h1 ! i) = Some c
              \<longrightarrow> boards h2 ! c = boards h1 ! c)"
    using r s2 f2 c2 k2 unfolding h'_def [symmetric]
    by (intro exI [of _ "length (boards h1)"] exI [of _ h2]) simp
qed

lemma example_tree: "treeShaped exampleGame \<and> heapOk exampleGame (emptyHeap exampleGame)"
  by code_simp

lemma example_first_call:
  "nodeBoard 3 exampleGame 2 (emptyHeap exampleGame) = Some (Inr 0, heapAfterE5)"
  by code_simp

lemma example_positions:
  "fen (boards heapAfterE5 ! 0) = Inr ''rnbqkbnr/pppp1ppp/8/4p3/4P3/8/PPPP1PPP/RNBQKBNR w KQkq e6 0 2''
   \<and> fen boardAfterNf3 = Inr ''rnbqkbnr/pppp1ppp/8/4p3/4P3/5N2/PPPP1PPP/RNBQKB1R b KQkq - 1 2''"
  by code_simp

theorem board_returns_owned_copy_witness:
  "nodeBoard 3 exampleGame 2 (emptyHeap exampleGame) = Some (Inr 0, heapAfterE5)
   \<and> fen (boards heapAfterE5 ! 0)
       = Inr ''rnbqkbnr/pppp1ppp/8/4p3/4P3/8/PPPP1PPP/RNBQKBNR w KQkq e6 0 2''
   \<and> fen boardAfterNf3
       = Inr ''rnbqkbnr/pppp1ppp/8/4p3/4P3/5N2/PPPP1PPP/RNBQKB1R b KQkq - 1 2''
   \<and> fst (the (nodeFen 1 exampleGame 2 (heapAfterE5\<lparr>boards := (boards heapAfterE5)[0 := boardAfterNf3]\<rparr>)))
       = Inr ''rnbqkbnr/pppp1ppp/8/4p3/4P3/8/PPPP1PPP/RNBQKBNR w KQkq e6 0 2''"
proof -
  have n: "2 < length (nodes exampleGame)" by (simp add: exampleGame_def)
  have t: "treeShaped exampleGame" and o: "heapOk exampleGame (emptyHeap exampleGame)"
    using example_tree by simp_all
  from board_returns_owned_copy [OF t o n] example_first_call
  have "\<forall>b' j. \<exists>h2.
          nodeFen (Suc j) exampleGame 2 (heapAfterE5\<lparr>boards := (boards heapAfterE5)[0 := b']\<rparr>)
            = Some (fen (boards heapAfterE5 ! 0), h2)"
    by blast
  then have "\<exists>h2.
          nodeFen (Suc 0) exampleGame 2 (heapAfterE5\<lparr>boards := (boards heapAfterE5)[0 := boardAfterNf3]\<rparr>)
            = Some (fen (boards heapAfterE5 ! 0), h2)"
    by (elim allE)
  then obtain h2 where
    "nodeFen (Suc 0) exampleGame 2 (heapAfterE5\<lparr>boards := (boards heapAfterE5)[0 := boardAfterNf3]\<rparr>)
       = Some (fen (boards heapAfterE5 ! 0), h2)"
    by (elim exE)
  then have "fst (the (nodeFen 1 exampleGame 2
                (heapAfterE5\<lparr>boards := (boards heapAfterE5)[0 := boardAfterNf3]\<rparr>)))
             = fen (boards heapAfterE5 ! 0)"
    by simp
  then show ?thesis using example_first_call example_positions by simp
qed

end
